theory Spec2Isabelle
  imports Main "HOL-Library.Word"
begin

section \<open>Python values as the server sees them\<close>

text \<open>
  A Python \<open>str\<close> is a sequence of Unicode code points; \<open>len\<close> and indexing
  count code points. It is modelled as a list of code points. \<open>ustr\<close> turns a
  literal of the theory (whose characters are all below 256) into such a list.
\<close>

type_synonym pystr = "nat list"

definition ustr :: "string \<Rightarrow> pystr" where
  "ustr s = map of_char s"

text \<open>A Python \<open>float\<close> is an IEEE-754 double, kept as its 64 bits.\<close>

type_synonym pyfloat = "64 word"

text \<open>
  What \<open>response.json()\<close> can hand back: any JSON document. A \<open>dict\<close> keeps
  its items in insertion order and is read with \<open>map_of\<close>.
\<close>

datatype json =
    JNull
  | JBool bool
  | JInt int
  | JFloat pyfloat
  | JStr pystr
  | JArr "json list"
  | JObj "(pystr \<times> json) list"

text \<open>
  The exceptions that the three functions of the server can meet. The last two
  derive from \<open>BaseException\<close> only: \<open>asyncio.CancelledError\<close>, raised inside
  an \<open>await\<close> when the task is cancelled, and \<open>KeyboardInterrupt\<close>.
\<close>

datatype exn =
    ConnectError
  | TimeoutException
  | HTTPStatusError
  | JSONDecodeError
  | KeyError
  | IndexError
  | TypeError
  | ValueError
  | ImportError
  | CancelledError
  | KeyboardInterrupt

text \<open>\<open>isinstance(e, Exception)\<close>, the test of \<open>except Exception\<close>.\<close>

fun is_Exception :: "exn \<Rightarrow> bool" where
  "is_Exception CancelledError = False"
| "is_Exception KeyboardInterrupt = False"
| "is_Exception e = True"

text \<open>Sequencing of computations that may raise: the first exception wins.\<close>

definition and_then :: "exn + 'a \<Rightarrow> ('a \<Rightarrow> exn + 'b) \<Rightarrow> exn + 'b" where
  "and_then m f = (case m of Inl e \<Rightarrow> Inl e | Inr x \<Rightarrow> f x)"

text \<open>\<open>bool(v)\<close>: what \<open>if not data\<close> tests.\<close>

fun py_bool :: "json \<Rightarrow> bool" where
  "py_bool JNull = False"
| "py_bool (JBool b) = b"
| "py_bool (JInt i) = (i \<noteq> 0)"
| "py_bool (JFloat w) = (take_bit 63 w \<noteq> 0)"
| "py_bool (JStr s) = (s \<noteq> [])"
| "py_bool (JArr xs) = (xs \<noteq> [])"
| "py_bool (JObj kvs) = (kvs \<noteq> [])"

text \<open>\<open>v[key]\<close> with a \<open>str\<close> key.\<close>

fun getitem_str :: "json \<Rightarrow> pystr \<Rightarrow> exn + json" where
  "getitem_str (JObj kvs) k = (case map_of kvs k of None \<Rightarrow> Inl KeyError | Some v \<Rightarrow> Inr v)"
| "getitem_str _ k = Inl TypeError"

text \<open>\<open>len(v)\<close>.\<close>

fun py_len :: "json \<Rightarrow> exn + nat" where
  "py_len (JStr s) = Inr (length s)"
| "py_len (JArr xs) = Inr (length xs)"
| "py_len (JObj kvs) = Inr (length kvs)"
| "py_len _ = Inl TypeError"

text \<open>
  \<open>v[i]\<close> with an \<open>int\<close> index \<open>i \<ge> 0\<close> (the indices of \<open>range\<close>). A
  \<open>dict\<close> from JSON has only \<open>str\<close> keys, so an \<open>int\<close> key is missing.
\<close>

fun getitem_int :: "json \<Rightarrow> nat \<Rightarrow> exn + json" where
  "getitem_int (JArr xs) i = (if i < length xs then Inr (xs ! i) else Inl IndexError)"
| "getitem_int (JStr s) i = (if i < length s then Inr (JStr [s ! i]) else Inl IndexError)"
| "getitem_int (JObj kvs) i = Inl KeyError"
| "getitem_int _ i = Inl TypeError"

text \<open>\<open>sep.join(xs)\<close>.\<close>

fun join :: "pystr \<Rightarrow> pystr list \<Rightarrow> pystr" where
  "join sep [] = []"
| "join sep [x] = x"
| "join sep (x # y # ys) = x @ sep @ join sep (y # ys)"

subsection \<open>The Python runtime and the HTTP library\<close>

text \<open>
  \<open>httpx.Response\<close>: the status line and the body as received.
\<close>

record response =
  status_code :: nat
  content :: pystr

text \<open>
  The parts of a run that are neither code of the server nor of the \<open>json\<close>
  module: how Python prints a \<open>float\<close> (\<open>float_repr\<close>) and reads one from the
  text of a JSON number (\<open>float_of_text\<close>), how it quotes a \<open>str\<close>, the
  exception, if any, raised by \<open>httpx.AsyncClient()\<close> or on entering it
  (\<open>client_open\<close>) and on leaving it (\<open>client_close\<close>), what the network
  answers to a GET, which responses \<open>raise_for_status\<close> rejects, and what
  \<open>response.json()\<close> decodes. \<open>client_get url headers timeout\<close> either raises
  or returns the response.
\<close>

record runtime =
  float_repr :: "pyfloat \<Rightarrow> pystr"
  float_of_text :: "pystr \<Rightarrow> pyfloat"
  str_repr :: "pystr \<Rightarrow> pystr"
  client_open :: "exn option"
  client_close :: "exn option"
  client_get :: "pystr \<Rightarrow> (pystr \<times> pystr) list \<Rightarrow> pyfloat \<Rightarrow> exn + response"
  raise_for_status :: "response \<Rightarrow> exn option"
  response_json :: "response \<Rightarrow> exn + json"

subsection \<open>\<open>str\<close> and \<open>repr\<close> of a value, as an f-string inserts it\<close>

fun nat_repr :: "nat \<Rightarrow> pystr" where
  "nat_repr n = (if n < 10 then [48 + n] else nat_repr (n div 10) @ [48 + n mod 10])"

declare nat_repr.simps [simp del]

definition int_repr :: "int \<Rightarrow> pystr" where
  "int_repr i = (if i < 0 then 45 # nat_repr (nat (- i)) else nat_repr (nat i))"

fun py_repr :: "runtime \<Rightarrow> json \<Rightarrow> pystr" where
  "py_repr rt JNull = ustr ''None''"
| "py_repr rt (JBool b) = (if b then ustr ''True'' else ustr ''False'')"
| "py_repr rt (JInt i) = int_repr i"
| "py_repr rt (JFloat w) = float_repr rt w"
| "py_repr rt (JStr s) = str_repr rt s"
| "py_repr rt (JArr xs) = ustr ''['' @ join (ustr '', '') (map (py_repr rt) xs) @ ustr '']''"
| "py_repr rt (JObj kvs) =
     ustr ''{'' @ join (ustr '', '')
        (map (\<lambda>(k, v). str_repr rt k @ ustr '': '' @ py_repr rt v) kvs) @ ustr ''}''"

fun py_str :: "runtime \<Rightarrow> json \<Rightarrow> pystr" where
  "py_str rt (JStr s) = s"
| "py_str rt v = py_repr rt v"

section \<open>\<open>json.dumps\<close>, as \<open>get_current_weather\<close> calls it\<close>

text \<open>A digit of \<open>'{0:04x}'.format(n)\<close>, and the escape \<open>\uXXXX\<close> itself.\<close>

definition hex_digit :: "nat \<Rightarrow> nat" where
  "hex_digit d = (if d < 10 then 48 + d else 87 + d)"

definition u_escape :: "nat \<Rightarrow> pystr" where
  "u_escape n = [92, 117, hex_digit (n div 4096 mod 16), hex_digit (n div 256 mod 16),
                 hex_digit (n div 16 mod 16), hex_digit (n mod 16)]"

text \<open>
  \<open>py_encode_basestring_ascii\<close>, the default \<open>ensure_ascii=True\<close>: the short
  escapes, the printable ASCII characters as they are, every other character of
  the basic plane as \<open>\uXXXX\<close> and the others as a surrogate pair.
\<close>

definition escape_char :: "nat \<Rightarrow> pystr" where
  "escape_char c =
     (if c = 34 then [92, 34]
      else if c = 92 then [92, 92]
      else if c = 10 then [92, 110]
      else if c = 13 then [92, 114]
      else if c = 9 then [92, 116]
      else if c = 8 then [92, 98]
      else if c = 12 then [92, 102]
      else if 32 \<le> c \<and> c \<le> 126 then [c]
      else if c < 0x10000 then u_escape c
      else u_escape (0xD800 + (c - 0x10000) div 1024 mod 1024)
           @ u_escape (0xDC00 + (c - 0x10000) mod 1024))"

definition encode_string :: "pystr \<Rightarrow> pystr" where
  "encode_string s = [34] @ concat (map escape_char s) @ [34]"

text \<open>
  The doubles that are not numbers and the two infinities, which the encoder
  writes as \<open>NaN\<close>, \<open>Infinity\<close> and \<open>-Infinity\<close>; \<open>nan\<close> is the value of
  \<open>float('nan')\<close>, which the decoder gives for \<open>NaN\<close>.
\<close>

definition is_nan :: "pyfloat \<Rightarrow> bool" where
  "is_nan w = (0x7FF0000000000000 < take_bit 63 w)"
definition pos_inf :: pyfloat where "pos_inf = 0x7FF0000000000000"
definition neg_inf :: pyfloat where "neg_inf = 0xFFF0000000000000"
definition nan :: pyfloat where "nan = 0x7FF8000000000000"

text \<open>\<open>floatstr\<close> of the encoder (\<open>allow_nan=True\<close>).\<close>

definition float_text :: "runtime \<Rightarrow> pyfloat \<Rightarrow> pystr" where
  "float_text rt w =
     (if is_nan w then ustr ''NaN''
      else if w = pos_inf then ustr ''Infinity''
      else if w = neg_inf then ustr ''-Infinity''
      else float_repr rt w)"

text \<open>\<open>'\n' + '  ' * level\<close>, for \<open>indent=2\<close>.\<close>

definition newline_indent :: "nat \<Rightarrow> pystr" where
  "newline_indent level = 10 # replicate (2 * level) 32"

text \<open>
  \<open>_iterencode\<close> at an indentation level. With an indent the item separator is
  \<open>','\<close> and the key separator \<open>': '\<close>; an empty list or dict is written
  \<open>[]\<close> or \<open>{}\<close>.
\<close>

fun iterencode :: "runtime \<Rightarrow> nat \<Rightarrow> json \<Rightarrow> pystr" where
  "iterencode rt level JNull = ustr ''null''"
| "iterencode rt level (JBool b) = (if b then ustr ''true'' else ustr ''false'')"
| "iterencode rt level (JInt i) = int_repr i"
| "iterencode rt level (JFloat w) = float_text rt w"
| "iterencode rt level (JStr s) = encode_string s"
| "iterencode rt level (JArr xs) =
     (if xs = [] then ustr ''[]''
      else [91] @ newline_indent (Suc level)
           @ join ([44] @ newline_indent (Suc level)) (map (iterencode rt (Suc level)) xs)
           @ newline_indent level @ [93])"
| "iterencode rt level (JObj kvs) =
     (if kvs = [] then ustr ''{}''
      else [123] @ newline_indent (Suc level)
           @ join ([44] @ newline_indent (Suc level))
               (map (\<lambda>(k, v). encode_string k @ [58, 32] @ iterencode rt (Suc level) v) kvs)
           @ newline_indent level @ [125])"

text \<open>\<open>json.dumps(data, indent=2)\<close>.\<close>

definition json_dumps_indent2 :: "runtime \<Rightarrow> json \<Rightarrow> pystr" where
  "json_dumps_indent2 rt v = iterencode rt 0 v"

section \<open>server.py\<close>

definition OPENMETEO_API_BASE :: pystr where
  "OPENMETEO_API_BASE = ustr ''https://api.open-meteo.com/v1''"

definition USER_AGENT :: pystr where
  "USER_AGENT = ustr ''weather-app/1.0''"

subsection \<open>\<open>make_openmeteo_request\<close>\<close>

definition headers :: "(pystr \<times> pystr) list" where
  "headers = [(ustr ''User-Agent'', USER_AGENT), (ustr ''Accept'', ustr ''application/json'')]"

text \<open>The double \<open>30.0\<close>.\<close>

definition timeout_30 :: pyfloat where
  "timeout_30 = 0x403E000000000000"

text \<open>The body of the \<open>try\<close>: the GET, the status check, the decoding.\<close>

definition request_body :: "runtime \<Rightarrow> pystr \<Rightarrow> exn + json" where
  "request_body rt url =
     and_then (client_get rt url headers timeout_30) (\<lambda>response.
       case raise_for_status rt response of
         Some e \<Rightarrow> Inl e
       | None \<Rightarrow> response_json rt response)"

text \<open>
  \<open>async with httpx.AsyncClient() as client: try: ... return response.json()
  except Exception: return None\<close>. The result is \<open>Inl e\<close> when \<open>e\<close> leaves
  the function, \<open>Inr None\<close> for Python's \<open>None\<close>. Opening the client lies
  outside the \<open>try\<close>; the client is closed on every way out of the block, and
  an exception raised then replaces the outcome.
\<close>

definition make_openmeteo_request :: "runtime \<Rightarrow> pystr \<Rightarrow> exn + json option" where
  "make_openmeteo_request rt url =
     (case client_open rt of
        Some e \<Rightarrow> Inl e
      | None \<Rightarrow>
          (let outcome =
             (case request_body rt url of
                Inr doc \<Rightarrow> Inr (Some doc)
              | Inl e \<Rightarrow> if is_Exception e then Inr None else Inl e)
           in case client_close rt of
                Some e \<Rightarrow> Inl e
              | None \<Rightarrow> outcome))"

text \<open>\<open>not data\<close> for \<open>data\<close> of type \<open>dict | None\<close>.\<close>

fun py_not :: "json option \<Rightarrow> bool" where
  "py_not None = True"
| "py_not (Some v) = (\<not> py_bool v)"

subsection \<open>\<open>get_forecast\<close>\<close>

definition forecast_url :: "runtime \<Rightarrow> pyfloat \<Rightarrow> pyfloat \<Rightarrow> pystr" where
  "forecast_url rt latitude longitude =
     OPENMETEO_API_BASE @ ustr ''/forecast?latitude='' @ py_str rt (JFloat latitude)
       @ ustr ''&longitude='' @ py_str rt (JFloat longitude)
       @ ustr ''&hourly=temperature_2m,precipitation,weathercode&daily=temperature_2m_max,temperature_2m_min,precipitation_sum,weathercode&timezone=auto''"

text \<open>The line feed and the degree sign (U+00B0) of the template.\<close>

definition LF :: nat where
  "LF = 10"

definition DEGREE :: nat where
  "DEGREE = 176"

text \<open>The five lines of one day, as the f-string of the loop lays them out.\<close>

definition forecast_text :: "runtime \<Rightarrow> json \<Rightarrow> json \<Rightarrow> json \<Rightarrow> json \<Rightarrow> json \<Rightarrow> pystr" where
  "forecast_text rt t tmax tmin prec code =
     [LF] @ ustr ''Date: '' @ py_str rt t @ [LF]
     @ ustr ''Max Temperature: '' @ py_str rt tmax @ [DEGREE] @ ustr ''C'' @ [LF]
     @ ustr ''Min Temperature: '' @ py_str rt tmin @ [DEGREE] @ ustr ''C'' @ [LF]
     @ ustr ''Precipitation: '' @ py_str rt prec @ ustr '' mm'' @ [LF]
     @ ustr ''Weather Code: '' @ py_str rt code @ [LF]"

text \<open>\<open>daily[key][i]\<close>.\<close>

definition daily_at :: "json \<Rightarrow> string \<Rightarrow> nat \<Rightarrow> exn + json" where
  "daily_at daily key i = and_then (getitem_str daily (ustr key)) (\<lambda>xs. getitem_int xs i)"

text \<open>
  One evaluation of the f-string: the five subscripts from top to bottom, the
  first one that raises ends it.
\<close>

definition forecast_day :: "runtime \<Rightarrow> json \<Rightarrow> nat \<Rightarrow> exn + pystr" where
  "forecast_day rt daily i =
     and_then (daily_at daily ''time'' i) (\<lambda>t.
     and_then (daily_at daily ''temperature_2m_max'' i) (\<lambda>tmax.
     and_then (daily_at daily ''temperature_2m_min'' i) (\<lambda>tmin.
     and_then (daily_at daily ''precipitation_sum'' i) (\<lambda>prec.
     and_then (daily_at daily ''weathercode'' i) (\<lambda>code.
       Inr (forecast_text rt t tmax tmin prec code))))))"

text \<open>
  The \<open>for\<close> loop over the indices still to visit, with \<open>forecasts\<close> as built
  so far.
\<close>

fun forecast_loop :: "runtime \<Rightarrow> json \<Rightarrow> nat list \<Rightarrow> pystr list \<Rightarrow> exn + pystr list" where
  "forecast_loop rt daily [] forecasts = Inr forecasts"
| "forecast_loop rt daily (i # is) forecasts =
     and_then (forecast_day rt daily i) (\<lambda>forecast.
       forecast_loop rt daily is (forecasts @ [forecast]))"

text \<open>What follows the test \<open>if not data\<close>, on the payload.\<close>

definition format_forecast :: "runtime \<Rightarrow> json \<Rightarrow> exn + pystr" where
  "format_forecast rt data =
     and_then (getitem_str data (ustr ''daily'')) (\<lambda>daily.
     and_then (and_then (getitem_str daily (ustr ''time'')) py_len) (\<lambda>n.
     and_then (forecast_loop rt daily [0..<n] []) (\<lambda>forecasts.
       Inr (join ([LF] @ ustr ''---'' @ [LF]) forecasts))))"

definition get_forecast :: "runtime \<Rightarrow> pyfloat \<Rightarrow> pyfloat \<Rightarrow> exn + pystr" where
  "get_forecast rt latitude longitude =
     and_then (make_openmeteo_request rt (forecast_url rt latitude longitude)) (\<lambda>data.
       if py_not data then Inr (ustr ''Unable to fetch forecast data for this location.'')
       else format_forecast rt (the data))"

subsection \<open>\<open>get_current_weather\<close>\<close>

definition current_weather_url :: "runtime \<Rightarrow> pyfloat \<Rightarrow> pyfloat \<Rightarrow> pystr" where
  "current_weather_url rt latitude longitude =
     OPENMETEO_API_BASE @ ustr ''/forecast?latitude='' @ py_str rt (JFloat latitude)
       @ ustr ''&longitude='' @ py_str rt (JFloat longitude)
       @ ustr ''&current=temperature_2m,is_day,showers,cloud_cover,wind_speed_10m,wind_direction_10m,pressure_msl,snowfall,precipitation,relative_humidity_2m,apparent_temperature,rain,weather_code,surface_pressure,wind_gusts_10m''"

definition get_current_weather :: "runtime \<Rightarrow> pyfloat \<Rightarrow> pyfloat \<Rightarrow> exn + pystr" where
  "get_current_weather rt latitude longitude =
     and_then (make_openmeteo_request rt (current_weather_url rt latitude longitude)) (\<lambda>data.
       if py_not data then Inr (ustr ''Unable to fetch current weather data for this location.'')
       else Inr (json_dumps_indent2 rt (the data)))"

section \<open>\<open>json.loads\<close>, to read the text back\<close>

text \<open>The whitespace of the decoder: space, tab, line feed, carriage return.\<close>

definition is_ws :: "nat \<Rightarrow> bool" where
  "is_ws c = (c = 32 \<or> c = 9 \<or> c = 10 \<or> c = 13)"
definition skip_ws :: "pystr \<Rightarrow> pystr" where
  "skip_ws s = dropWhile is_ws s"

text \<open>The four hexadecimal digits of an escape \<open>\uXXXX\<close>, in either case.\<close>

definition hex_value :: "nat \<Rightarrow> nat option" where
  "hex_value c =
     (if 48 \<le> c \<and> c \<le> 57 then Some (c - 48)
      else if 97 \<le> c \<and> c \<le> 102 then Some (c - 87)
      else if 65 \<le> c \<and> c \<le> 70 then Some (c - 55)
      else None)"

definition decode_uXXXX :: "pystr \<Rightarrow> nat option" where
  "decode_uXXXX s =
     (case s of
        a # b # c # d # _ \<Rightarrow>
          (case (hex_value a, hex_value b, hex_value c, hex_value d) of
             (Some x3, Some x2, Some x1, Some x0) \<Rightarrow> Some (((x3 * 16 + x2) * 16 + x1) * 16 + x0)
           | _ \<Rightarrow> None)
      | _ \<Rightarrow> None)"

text \<open>The short escapes.\<close>

definition backslash :: "nat \<Rightarrow> nat option" where
  "backslash e =
     (if e = 34 then Some 34
      else if e = 92 then Some 92
      else if e = 47 then Some 47
      else if e = 98 then Some 8
      else if e = 102 then Some 12
      else if e = 110 then Some 10
      else if e = 114 then Some 13
      else if e = 116 then Some 9
      else None)"

definition cons_result :: "nat \<Rightarrow> (pystr \<times> pystr) option \<Rightarrow> (pystr \<times> pystr) option" where
  "cons_result c r = map_option (\<lambda>(s, rest). (c # s, rest)) r"

text \<open>
  \<open>scanstring\<close> (\<open>strict=True\<close>), from the character after the opening quote:
  the decoded text and what follows the closing quote. A control character is
  an error; an escaped high surrogate directly followed by an escaped low
  surrogate is read as one character.
\<close>

function scanstring :: "pystr \<Rightarrow> (pystr \<times> pystr) option" where
  "scanstring s =
     (case s of
        [] \<Rightarrow> None
      | c # cs \<Rightarrow>
          if c = 34 then Some ([], cs)
          else if c = 92 then
            (case cs of
               [] \<Rightarrow> None
             | e # es \<Rightarrow>
                 if e = 117 then
                   (case decode_uXXXX es of
                      None \<Rightarrow> None
                    | Some uni \<Rightarrow>
                        if 0xD800 \<le> uni \<and> uni \<le> 0xDBFF \<and> take 2 (drop 4 es) = [92, 117] then
                          (case decode_uXXXX (drop 6 es) of
                             None \<Rightarrow> None
                           | Some uni2 \<Rightarrow>
                               if 0xDC00 \<le> uni2 \<and> uni2 \<le> 0xDFFF
                               then cons_result (0x10000 + (uni - 0xD800) * 1024 + (uni2 - 0xDC00))
                                      (scanstring (drop 10 es))
                               else cons_result uni (scanstring (drop 4 es)))
                        else cons_result uni (scanstring (drop 4 es)))
                 else
                   (case backslash e of
                      None \<Rightarrow> None
                    | Some c' \<Rightarrow> cons_result c' (scanstring es)))
          else if c < 32 then None
          else cons_result c (scanstring cs))"
  by pat_completeness auto
termination
  by (relation "measure length") auto

declare scanstring.simps [simp del]

text \<open>
  The pattern of a number,
  \<open>(-?(?:0|[1-9]\d*))(\.\d+)?([eE][-+]?\d+)?\<close>, matched at the start of the
  text: the integer, fraction and exponent that match and what follows them.
\<close>

definition is_digit :: "nat \<Rightarrow> bool" where
  "is_digit c = (48 \<le> c \<and> c \<le> 57)"

definition opt_minus :: "pystr \<Rightarrow> pystr \<times> pystr" where
  "opt_minus s = (case s of [] \<Rightarrow> ([], []) | c # cs \<Rightarrow> if c = 45 then ([45], cs) else ([], s))"

definition int_part :: "pystr \<Rightarrow> (pystr \<times> pystr) option" where
  "int_part s =
     (case s of
        [] \<Rightarrow> None
      | d # ds \<Rightarrow>
          if d = 48 then Some ([48], ds)
          else if is_digit d then Some (d # takeWhile is_digit ds, dropWhile is_digit ds)
          else None)"

definition frac_part :: "pystr \<Rightarrow> pystr \<times> pystr" where
  "frac_part s =
     (case s of
        [] \<Rightarrow> ([], [])
      | c # cs \<Rightarrow>
          if c = 46 \<and> takeWhile is_digit cs \<noteq> []
          then (46 # takeWhile is_digit cs, dropWhile is_digit cs)
          else ([], s))"

definition opt_sign :: "pystr \<Rightarrow> pystr \<times> pystr" where
  "opt_sign s = (case s of [] \<Rightarrow> ([], []) | c # cs \<Rightarrow> if c = 43 \<or> c = 45 then ([c], cs) else ([], s))"

definition exp_part :: "pystr \<Rightarrow> pystr \<times> pystr" where
  "exp_part s =
     (case s of
        [] \<Rightarrow> ([], [])
      | c # cs \<Rightarrow>
          if (c = 101 \<or> c = 69) \<and> takeWhile is_digit (snd (opt_sign cs)) \<noteq> []
          then (c # fst (opt_sign cs) @ takeWhile is_digit (snd (opt_sign cs)),
                dropWhile is_digit (snd (opt_sign cs)))
          else ([], s))"

definition match_number :: "pystr \<Rightarrow> (pystr \<times> pystr \<times> pystr \<times> pystr) option" where
  "match_number s =
     (case int_part (snd (opt_minus s)) of
        None \<Rightarrow> None
      | Some (digits, s2) \<Rightarrow>
          Some (fst (opt_minus s) @ digits,
                fst (frac_part s2),
                fst (exp_part (snd (frac_part s2))),
                snd (exp_part (snd (frac_part s2)))))"

text \<open>\<open>int(s)\<close> on the integer of a number.\<close>

definition digits_value :: "pystr \<Rightarrow> nat" where
  "digits_value ds = foldl (\<lambda>a d. 10 * a + (d - 48)) 0 ds"

definition int_of_text :: "pystr \<Rightarrow> int" where
  "int_of_text t =
     (case t of
        [] \<Rightarrow> 0
      | c # cs \<Rightarrow> if c = 45 then - int (digits_value cs) else int (digits_value t))"

definition strip_prefix :: "pystr \<Rightarrow> pystr \<Rightarrow> pystr option" where
  "strip_prefix p s = (if take (length p) s = p then Some (drop (length p) s) else None)"

text \<open>
  The values other than lists and dicts, tried in the order of \<open>scan_once\<close>:
  string, \<open>null\<close>, \<open>true\<close>, \<open>false\<close>, number, \<open>NaN\<close>, \<open>Infinity\<close>,
  \<open>-Infinity\<close>.
\<close>

definition scan_scalar :: "runtime \<Rightarrow> pystr \<Rightarrow> (json \<times> pystr) option" where
  "scan_scalar rt s =
     (case s of
        [] \<Rightarrow> None
      | c # cs \<Rightarrow>
          if c = 34 then map_option (\<lambda>(str, r). (JStr str, r)) (scanstring cs)
          else if c = 110 \<and> strip_prefix (ustr ''null'') s \<noteq> None
            then Some (JNull, drop 4 s)
          else if c = 116 \<and> strip_prefix (ustr ''true'') s \<noteq> None
            then Some (JBool True, drop 4 s)
          else if c = 102 \<and> strip_prefix (ustr ''false'') s \<noteq> None
            then Some (JBool False, drop 5 s)
          else
            (case match_number s of
               Some (integer, frac, exp, r) \<Rightarrow>
                 if frac \<noteq> [] \<or> exp \<noteq> []
                 then Some (JFloat (float_of_text rt (integer @ frac @ exp)), r)
                 else Some (JInt (int_of_text integer), r)
             | None \<Rightarrow>
                 if c = 78 \<and> strip_prefix (ustr ''NaN'') s \<noteq> None
                   then Some (JFloat nan, drop 3 s)
                 else if c = 73 \<and> strip_prefix (ustr ''Infinity'') s \<noteq> None
                   then Some (JFloat pos_inf, drop 8 s)
                 else if c = 45 \<and> strip_prefix (ustr ''-Infinity'') s \<noteq> None
                   then Some (JFloat neg_inf, drop 9 s)
                 else None))"

text \<open>\<open>dict(pairs)\<close>: a key met again keeps its place and takes the new value.\<close>

fun dict_set :: "(pystr \<times> json) list \<Rightarrow> pystr \<Rightarrow> json \<Rightarrow> (pystr \<times> json) list" where
  "dict_set [] k v = [(k, v)]"
| "dict_set ((k', v') # d) k v = (if k' = k then (k', v) # d else (k', v') # dict_set d k v)"

definition dict_of_pairs :: "(pystr \<times> json) list \<Rightarrow> (pystr \<times> json) list" where
  "dict_of_pairs pairs = foldl (\<lambda>d (k, v). dict_set d k v) [] pairs"

text \<open>
  \<open>scan_once\<close>, \<open>JSONArray\<close> and \<open>JSONObject\<close>. The natural number bounds the
  calls still allowed; \<open>JSONObject\<close> starts after the opening quote of a key.
\<close>

fun scan_once :: "runtime \<Rightarrow> nat \<Rightarrow> pystr \<Rightarrow> (json \<times> pystr) option"
  and JSONArray :: "runtime \<Rightarrow> nat \<Rightarrow> pystr \<Rightarrow> json list \<Rightarrow> (json \<times> pystr) option"
  and JSONObject :: "runtime \<Rightarrow> nat \<Rightarrow> pystr \<Rightarrow> (pystr \<times> json) list \<Rightarrow> (json \<times> pystr) option"
where
  "scan_once rt 0 s = None"
| "scan_once rt (Suc n) s =
     (case s of
        [] \<Rightarrow> None
      | c # cs \<Rightarrow>
          if c = 123 then
            (case skip_ws cs of
               [] \<Rightarrow> None
             | d # ds \<Rightarrow>
                 if d = 125 then Some (JObj [], ds)
                 else if d = 34 then JSONObject rt n ds []
                 else None)
          else if c = 91 then
            (case skip_ws cs of
               [] \<Rightarrow> None
             | d # ds \<Rightarrow>
                 if d = 93 then Some (JArr [], ds)
                 else JSONArray rt n (d # ds) [])
          else scan_scalar rt s)"
| "JSONArray rt 0 s values = None"
| "JSONArray rt (Suc n) s values =
     (case scan_once rt n s of
        None \<Rightarrow> None
      | Some (v, r) \<Rightarrow>
          (case skip_ws r of
             [] \<Rightarrow> None
           | d # ds \<Rightarrow>
               if d = 93 then Some (JArr (values @ [v]), ds)
               else if d = 44 then JSONArray rt n (skip_ws ds) (values @ [v])
               else None))"
| "JSONObject rt 0 s pairs = None"
| "JSONObject rt (Suc n) s pairs =
     (case scanstring s of
        None \<Rightarrow> None
      | Some (key, r) \<Rightarrow>
          (case skip_ws r of
             [] \<Rightarrow> None
           | c # cs \<Rightarrow>
               if c \<noteq> 58 then None
               else
                 (case scan_once rt n (skip_ws cs) of
                    None \<Rightarrow> None
                  | Some (v, r2) \<Rightarrow>
                      (case skip_ws r2 of
                         [] \<Rightarrow> None
                       | d # ds \<Rightarrow>
                           if d = 125 then Some (JObj (dict_of_pairs (pairs @ [(key, v)])), ds)
                           else if d = 44 then
                             (case skip_ws ds of
                                [] \<Rightarrow> None
                              | q # qs \<Rightarrow>
                                  if q = 34 then JSONObject rt n qs (pairs @ [(key, v)])
                                  else None)
                           else None))))"

text \<open>
  \<open>json.loads(s)\<close>: whitespace, one value, whitespace, the end of the text.
  \<open>None\<close> stands for \<open>JSONDecodeError\<close>. A call of the scanner reads at least
  one character, so the length of the text bounds the calls.
\<close>

definition json_loads :: "runtime \<Rightarrow> pystr \<Rightarrow> json option" where
  "json_loads rt s =
     (case scan_once rt (length s) (skip_ws s) of
        None \<Rightarrow> None
      | Some (v, r) \<Rightarrow> if skip_ws r = [] then Some v else None)"



text \<open>What follows a value in the text that the encoder writes: a comma, a line feed or nothing.\<close>

definition delimited :: "pystr \<Rightarrow> bool" where
  "delimited r = (case r of [] \<Rightarrow> True | c # _ \<Rightarrow> c = 44 \<or> c = 10)"

text \<open>A text that is a number with a fraction or an exponent, and nothing more.\<close>

definition float_literal :: "pystr \<Rightarrow> bool" where
  "float_literal t =
     (case match_number t of
        None \<Rightarrow> False
      | Some (integer, frac, exp, r) \<Rightarrow> r = [] \<and> (frac \<noteq> [] \<or> exp \<noteq> []))"

text \<open>Surrogate code points, and a \<open>str\<close> without a high one directly before a low one.\<close>

definition high_surrogate :: "nat \<Rightarrow> bool" where
  "high_surrogate c = (0xD800 \<le> c \<and> c \<le> 0xDBFF)"

definition low_surrogate :: "nat \<Rightarrow> bool" where
  "low_surrogate c = (0xDC00 \<le> c \<and> c \<le> 0xDFFF)"

fun no_surrogate_pair :: "pystr \<Rightarrow> bool" where
  "no_surrogate_pair [] = True"
| "no_surrogate_pair [c] = True"
| "no_surrogate_pair (c # d # cs) = (\<not> (high_surrogate c \<and> low_surrogate d) \<and> no_surrogate_pair (d # cs))"

text \<open>A \<open>str\<close> holds code points up to U+10FFFF.\<close>

definition is_str :: "pystr \<Rightarrow> bool" where
  "is_str s = list_all (\<lambda>c. c < 0x110000) s"



text \<open>
  A document as the decoder builds it, that Python prints back: every \<open>str\<close>
  holds code points, the keys of a dict are distinct, a NaN is \<open>float('nan')\<close>,
  and a finite \<open>float\<close> is printed as a number with a fraction or an exponent
  that \<open>float\<close> reads back as the same double.
\<close>

fun decodable :: "runtime \<Rightarrow> json \<Rightarrow> bool" where
  "decodable rt JNull = True"
| "decodable rt (JBool b) = True"
| "decodable rt (JInt i) = True"
| "decodable rt (JFloat w) =
     (if is_nan w then w = nan
      else if w = pos_inf \<or> w = neg_inf then True
      else float_literal (float_repr rt w) \<and> float_of_text rt (float_repr rt w) = w)"
| "decodable rt (JStr s) = is_str s"
| "decodable rt (JArr xs) = list_all (decodable rt) xs"
| "decodable rt (JObj kvs) =
     (distinct (map fst kvs) \<and> list_all (\<lambda>(k, v). is_str k \<and> decodable rt v) kvs)"

text \<open>No \<open>str\<close> of the document, key or value, has a high surrogate directly before a low one.\<close>

fun no_surrogate_pairs :: "json \<Rightarrow> bool" where
  "no_surrogate_pairs (JStr s) = no_surrogate_pair s"
| "no_surrogate_pairs (JArr xs) = list_all no_surrogate_pairs xs"
| "no_surrogate_pairs (JObj kvs) =
     list_all (\<lambda>(k, v). no_surrogate_pair k \<and> no_surrogate_pairs v) kvs"
| "no_surrogate_pairs v = True"

text \<open>A bound on the calls of the scanner that reading a document back takes.\<close>

fun weight :: "json \<Rightarrow> nat" where
  "weight (JArr xs) = Suc (sum_list (map (\<lambda>x. Suc (weight x)) xs))"
| "weight (JObj kvs) = Suc (sum_list (map (\<lambda>(k, v). Suc (weight v)) kvs))"
| "weight v = 1"

text \<open>A character that can open a value.\<close>

definition opens_value :: "nat \<Rightarrow> bool" where
  "opens_value c = (\<not> is_ws c \<and> c \<noteq> 93 \<and> c \<noteq> 125 \<and> c \<noteq> 44 \<and> c \<noteq> 58)"

section \<open>Concrete runs\<close>

text \<open>The doubles nearest to \<open>52.52\<close> and \<open>13.41\<close>.\<close>

definition lat_52_52 :: pyfloat where
  "lat_52_52 = 0x404A428F5C28F5C3"

definition lon_13_41 :: pyfloat where
  "lon_13_41 = 0x402AD1EB851EB852"

text \<open>
  A runtime to run the server on: Python prints the two doubles above as it
  does and reads them back, quotes a \<open>str\<close> with apostrophes, the client opens
  and closes, and the network, the status check and the decoder answer \<open>got\<close>,
  \<open>status\<close> and \<open>decoded\<close> whatever the request.
\<close>

definition sample_float_repr :: "pyfloat \<Rightarrow> pystr" where
  "sample_float_repr w =
     (if w = lat_52_52 then ustr ''52.52'' else if w = lon_13_41 then ustr ''13.41'' else ustr ''0.0'')"

definition sample_float_of_text :: "pystr \<Rightarrow> pyfloat" where
  "sample_float_of_text t =
     (if t = ustr ''52.52'' then lat_52_52 else if t = ustr ''13.41'' then lon_13_41 else 0)"

definition sample_runtime :: "exn + response \<Rightarrow> exn option \<Rightarrow> exn + json \<Rightarrow> runtime" where
  "sample_runtime got status decoded =
     \<lparr> float_repr = sample_float_repr,
       float_of_text = sample_float_of_text,
       str_repr = (\<lambda>s. [39] @ s @ [39]),
       client_open = None,
       client_close = None,
       client_get = (\<lambda>url hs t. got),
       raise_for_status = (\<lambda>r. status),
       response_json = (\<lambda>r. decoded) \<rparr>"

definition ok_response :: response where
  "ok_response = \<lparr> status_code = 200, content = [] \<rparr>"

definition server_error_response :: response where
  "server_error_response = \<lparr> status_code = 500, content = [] \<rparr>"

text \<open>The runtime in which the request succeeds and decodes to \<open>doc\<close>.\<close>

definition serving :: "json \<Rightarrow> runtime" where
  "serving doc = sample_runtime (Inr ok_response) None (Inr doc)"

definition two_days :: json where
  "two_days = JObj
     [(ustr ''time'', JArr [JStr (ustr ''2024-05-01''), JStr (ustr ''2024-05-02'')]),
      (ustr ''temperature_2m_max'', JArr [JInt 21, JInt 18]),
      (ustr ''temperature_2m_min'', JArr [JInt 9, JInt (- 1)]),
      (ustr ''precipitation_sum'', JArr [JInt 0, JNull]),
      (ustr ''weathercode'', JArr [JInt 3, JInt 61])]"

definition payload_two_days :: json where
  "payload_two_days = JObj [(ustr ''latitude'', JFloat lat_52_52), (ustr ''daily'', two_days)]"

definition payload_two_days_hourly :: json where
  "payload_two_days_hourly = JObj
     [(ustr ''hourly'', JObj [(ustr ''time'', JArr [JStr (ustr ''2024-05-01T00:00'')])]),
      (ustr ''daily'', two_days)]"

definition payload_no_daily :: json where
  "payload_no_daily = JObj [(ustr ''current'', JObj [(ustr ''is_day'', JInt 1)])]"

definition payload_short_array :: json where
  "payload_short_array = JObj [(ustr ''daily'', JObj
     [(ustr ''time'', JArr [JStr (ustr ''2024-05-01''), JStr (ustr ''2024-05-02'')]),
      (ustr ''temperature_2m_max'', JArr [JInt 21, JInt 18]),
      (ustr ''temperature_2m_min'', JArr [JInt 9, JInt (- 1)]),
      (ustr ''precipitation_sum'', JArr [JInt 0]),
      (ustr ''weathercode'', JArr [JInt 3, JInt 61])])]"

definition payload_no_days :: json where
  "payload_no_days = JObj [(ustr ''daily'', JObj
     [(ustr ''time'', JArr []),
      (ustr ''temperature_2m_max'', JArr []),
      (ustr ''temperature_2m_min'', JArr []),
      (ustr ''precipitation_sum'', JArr []),
      (ustr ''weathercode'', JArr [])])]"

text \<open>A payload with a \<open>current\<close> object.\<close>

definition payload_current :: json where
  "payload_current = JObj
     [(ustr ''latitude'', JFloat lat_52_52),
      (ustr ''current'', JObj
         [(ustr ''is_day'', JInt 1),
          (ustr ''temperature_2m'', JFloat lon_13_41),
          (ustr ''codes'', JArr [JInt (- 3), JNull, JBool True, JArr []])])]"

text \<open>
  The payload that \<open>json.loads\<close> builds from the bytes
  \<open>{"current": {"note": "\xed\xa0\xbd\xed\xb8\x80"}}\<close>, whose \<open>note\<close> holds the
  two code points U+D83D and U+DE00, and the one with the single code point
  U+1F600 in their place.
\<close>

definition payload_surrogates :: json where
  "payload_surrogates = JObj [(ustr ''current'', JObj [(ustr ''note'', JStr [0xD83D, 0xDE00])])]"

definition payload_joined :: json where
  "payload_joined = JObj [(ustr ''current'', JObj [(ustr ''note'', JStr [0x1F600])])]"

section \<open>Reading a URL back\<close>

text \<open>
  The names that follow \<open>&current=\<close> in the URL of \<open>get_current_weather\<close>, in
  the order of the source.
\<close>

definition current_variables :: "string list" where
  "current_variables =
     [''temperature_2m'', ''is_day'', ''showers'', ''cloud_cover'', ''wind_speed_10m'',
      ''wind_direction_10m'', ''pressure_msl'', ''snowfall'', ''precipitation'',
      ''relative_humidity_2m'', ''apparent_temperature'', ''rain'', ''weather_code'',
      ''surface_pressure'', ''wind_gusts_10m'']"

text \<open>\<open>s.split(c)\<close> for a separator \<open>c\<close> of one character.\<close>

fun split_on :: "nat \<Rightarrow> pystr \<Rightarrow> pystr list" where
  "split_on c [] = [[]]"
| "split_on c (x # xs) =
     (if x = c then [] # split_on c xs
      else (case split_on c xs of [] \<Rightarrow> [[x]] | y # ys \<Rightarrow> (x # y) # ys))"

text \<open>
  The query string of a URL, as the server that receives it reads it: what
  follows \<open>?\<close>, cut at each \<open>&\<close>, each part cut at its first \<open>=\<close>.
\<close>

definition query_pairs :: "pystr \<Rightarrow> (pystr \<times> pystr) list" where
  "query_pairs url =
     map (\<lambda>p. (takeWhile (\<lambda>c. c \<noteq> 61) p, drop 1 (dropWhile (\<lambda>c. c \<noteq> 61) p)))
       (split_on 38 (drop 1 (dropWhile (\<lambda>c. c \<noteq> 63) url)))"

definition query_value :: "pystr \<Rightarrow> pystr \<Rightarrow> pystr option" where
  "query_value url name = map_of (query_pairs url) name"

section \<open>Properties\<close>

subsection \<open>Auxiliary facts\<close>

lemma and_then_Inr [simp]: "and_then (Inr x) f = f x"
  by (simp add: and_then_def)

lemma and_then_Inl [simp]: "and_then (Inl e) f = Inl e"
  by (simp add: and_then_def)

lemma fetch_cases:
  assumes "client_open rt = None" and "client_close rt = None"
  shows "make_openmeteo_request rt url =
     (case request_body rt url of
        Inr doc \<Rightarrow> Inr (Some doc)
      | Inl e \<Rightarrow> if is_Exception e then Inr None else Inl e)"
  using assms by (simp add: make_openmeteo_request_def)

lemma sample_runtime_open [simp]:
  "client_open (sample_runtime got status decoded) = None"
  "client_close (sample_runtime got status decoded) = None"
  by (simp_all add: sample_runtime_def)

lemma serving_fetch [simp]: "make_openmeteo_request (serving doc) url = Inr (Some doc)"
  by (simp add: fetch_cases request_body_def serving_def) (simp add: sample_runtime_def)

lemma getitem_str_truthy: "getitem_str data k = Inr v \<Longrightarrow> py_bool data"
  by (cases data) (auto split: option.splits)

lemma py_repr_cong:
  assumes "float_repr rt1 = float_repr rt2" and "str_repr rt1 = str_repr rt2"
  shows "py_repr rt1 v = py_repr rt2 v"
proof (induction v)
  case (JArr xs)
  have h: "map (py_repr rt1) xs = map (py_repr rt2) xs"
    by (rule map_cong[OF refl]) (rule JArr.IH)
  show ?case by (simp add: h)
next
  case (JObj kvs)
  have h: "map (\<lambda>(k, v). str_repr rt1 k @ ustr '': '' @ py_repr rt1 v) kvs
      = map (\<lambda>(k, v). str_repr rt2 k @ ustr '': '' @ py_repr rt2 v) kvs"
  proof (rule map_cong[OF refl])
    fix kv assume kv: "kv \<in> set kvs"
    obtain k v where eq: "kv = (k, v)" by (cases kv)
    have "py_repr rt1 v = py_repr rt2 v"
      using JObj.IH[of kv v] kv by (simp add: eq)
    then show "(case kv of (k, v) \<Rightarrow> str_repr rt1 k @ ustr '': '' @ py_repr rt1 v)
        = (case kv of (k, v) \<Rightarrow> str_repr rt2 k @ ustr '': '' @ py_repr rt2 v)"
      by (simp add: eq assms(2))
  qed
  show ?case by (simp add: h)
qed (simp_all add: assms)

lemma py_str_cong:
  assumes "float_repr rt1 = float_repr rt2" and "str_repr rt1 = str_repr rt2"
  shows "py_str rt1 v = py_str rt2 v"
proof (cases v)
  case (JStr s)
  then show ?thesis by simp
qed (simp_all only: py_str.simps py_repr_cong[OF assms])

lemma forecast_text_cong:
  assumes "float_repr rt1 = float_repr rt2" and "str_repr rt1 = str_repr rt2"
  shows "forecast_text rt1 = forecast_text rt2"
  by (intro ext) (simp add: forecast_text_def py_str_cong[OF assms])

lemma forecast_day_cong:
  assumes "float_repr rt1 = float_repr rt2" and "str_repr rt1 = str_repr rt2"
  shows "forecast_day rt1 = forecast_day rt2"
  by (intro ext) (simp add: forecast_day_def forecast_text_cong[OF assms])

lemma forecast_loop_cong:
  assumes "float_repr rt1 = float_repr rt2" and "str_repr rt1 = str_repr rt2"
  shows "forecast_loop rt1 daily is acc = forecast_loop rt2 daily is acc"
  by (induction "is" arbitrary: acc) (simp_all add: forecast_day_cong[OF assms])

lemma format_forecast_cong:
  assumes "float_repr rt1 = float_repr rt2" and "str_repr rt1 = str_repr rt2"
  shows "format_forecast rt1 data = format_forecast rt2 data"
proof -
  have "forecast_loop rt1 = forecast_loop rt2"
    by (intro ext) (rule forecast_loop_cong[OF assms])
  then show ?thesis by (simp add: format_forecast_def)
qed

lemma format_forecast_daily_only:
  assumes "getitem_str d1 (ustr ''daily'') = getitem_str d2 (ustr ''daily'')"
  shows "format_forecast rt d1 = format_forecast rt d2"
  by (simp add: format_forecast_def assms)

lemma forecast_loop_arrays:
  assumes "map_of dk (ustr ''time'') = Some (JArr ts)"
    and "map_of dk (ustr ''temperature_2m_max'') = Some (JArr mx)"
    and "map_of dk (ustr ''temperature_2m_min'') = Some (JArr mn)"
    and "map_of dk (ustr ''precipitation_sum'') = Some (JArr pr)"
    and "map_of dk (ustr ''weathercode'') = Some (JArr wc)"
    and "\<forall>i\<in>set is. i < length mx \<and> i < length mn \<and> i < length pr \<and> i < length wc \<and> i < length ts"
  shows "forecast_loop rt (JObj dk) is acc =
     Inr (acc @ map (\<lambda>i. forecast_text rt (ts ! i) (mx ! i) (mn ! i) (pr ! i) (wc ! i)) is)"
  using assms(6)
proof (induction "is" arbitrary: acc)
  case Nil
  then show ?case by simp
next
  case (Cons i "is")
  have "forecast_day rt (JObj dk) i = Inr (forecast_text rt (ts ! i) (mx ! i) (mn ! i) (pr ! i) (wc ! i))"
    using assms(1-5) Cons.prems by (simp add: forecast_day_def daily_at_def)
  then show ?case using Cons by simp
qed

lemma format_forecast_arrays:
  assumes "map_of kvs (ustr ''daily'') = Some (JObj dk)"
    and "map_of dk (ustr ''time'') = Some (JArr ts)"
    and "map_of dk (ustr ''temperature_2m_max'') = Some (JArr mx)"
    and "map_of dk (ustr ''temperature_2m_min'') = Some (JArr mn)"
    and "map_of dk (ustr ''precipitation_sum'') = Some (JArr pr)"
    and "map_of dk (ustr ''weathercode'') = Some (JArr wc)"
    and "length ts \<le> length mx" "length ts \<le> length mn" "length ts \<le> length pr" "length ts \<le> length wc"
  shows "format_forecast rt (JObj kvs) =
     Inr (join ([LF] @ ustr ''---'' @ [LF])
       (map (\<lambda>i. forecast_text rt (ts ! i) (mx ! i) (mn ! i) (pr ! i) (wc ! i)) [0..<length ts]))"
proof -
  have "\<forall>i\<in>set [0..<length ts]. i < length mx \<and> i < length mn \<and> i < length pr \<and> i < length wc \<and> i < length ts"
    using assms(7-10) by auto
  from forecast_loop_arrays[OF assms(2-6) this, of rt "[]"]
  show ?thesis using assms(1,2) by (simp add: format_forecast_def)
qed

lemma forecast_loop_append:
  "forecast_loop rt daily (xs @ ys) acc =
     and_then (forecast_loop rt daily xs acc) (\<lambda>acc'. forecast_loop rt daily ys acc')"
proof (induction xs arbitrary: acc)
  case Nil
  then show ?case by simp
next
  case (Cons i xs)
  then show ?case by (cases "forecast_day rt daily i") simp_all
qed

lemma forecast_day_short:
  assumes "map_of dk (ustr ''time'') = Some (JArr ts)"
    and "map_of dk (ustr ''temperature_2m_max'') = Some (JArr mx)"
    and "map_of dk (ustr ''temperature_2m_min'') = Some (JArr mn)"
    and "map_of dk (ustr ''precipitation_sum'') = Some (JArr pr)"
    and "map_of dk (ustr ''weathercode'') = Some (JArr wc)"
    and "m < length ts"
    and "\<not> (m < length mx \<and> m < length mn \<and> m < length pr \<and> m < length wc)"
  shows "forecast_day rt (JObj dk) m = Inl IndexError"
  using assms by (auto simp add: forecast_day_def daily_at_def)

lemma format_forecast_short:
  assumes "map_of kvs (ustr ''daily'') = Some (JObj dk)"
    and "map_of dk (ustr ''time'') = Some (JArr ts)"
    and "map_of dk (ustr ''temperature_2m_max'') = Some (JArr mx)"
    and "map_of dk (ustr ''temperature_2m_min'') = Some (JArr mn)"
    and "map_of dk (ustr ''precipitation_sum'') = Some (JArr pr)"
    and "map_of dk (ustr ''weathercode'') = Some (JArr wc)"
    and short: "length mx < length ts \<or> length mn < length ts \<or> length pr < length ts \<or> length wc < length ts"
  shows "format_forecast rt (JObj kvs) = Inl IndexError"
proof -
  define m where "m = min (min (length mx) (length mn)) (min (length pr) (length wc))"
  have m: "m < length ts" "\<not> (m < length mx \<and> m < length mn \<and> m < length pr \<and> m < length wc)"
    using short by (auto simp add: m_def min_def)
  have below: "\<forall>i\<in>set [0..<m]. i < length mx \<and> i < length mn \<and> i < length pr \<and> i < length wc \<and> i < length ts"
    using m(1) by (auto simp add: m_def)
  have split: "[0..<length ts] = [0..<m] @ m # [Suc m..<length ts]"
    using m(1) by (metis less_imp_add_positive upt_add_eq_append upt_conv_Cons zero_le le_add1 add.commute less_eq_nat.simps(1) upt_rec)
  have "forecast_loop rt (JObj dk) [0..<length ts] [] = Inl IndexError"
    unfolding split forecast_loop_append
    by (simp add: forecast_loop_arrays[OF assms(2-6) below] forecast_day_short[OF assms(2-6) m])
  then show ?thesis
    using assms(1,2) by (simp add: format_forecast_def)
qed

subsection \<open>Strings written and read back\<close>

lemma hex_value_hex_digit: "d < 16 \<Longrightarrow> hex_value (hex_digit d) = Some d"
  by (auto simp add: hex_value_def hex_digit_def)

lemma div_16_16: "(n::nat) div 16 div 16 = n div 256"
  by (simp add: div_mult2_eq[symmetric])
lemma div_256_16: "(n::nat) div 256 div 16 = n div 4096"
  by (simp add: div_mult2_eq[symmetric])
lemma div_4096_small: "(n::nat) < 65536 \<Longrightarrow> n div 4096 mod 16 = n div 4096"
  by (simp add: less_mult_imp_div_less)

lemma four_hex_digits:
  assumes "n < 65536"
  shows "((n div 4096 mod 16 * 16 + n div 256 mod 16) * 16 + n div 16 mod 16) * 16 + n mod 16 = (n::nat)"
proof -
  have e0: "n div 16 * 16 + n mod 16 = n"
    by (rule div_mult_mod_eq)
  have e1: "n div 256 * 16 + n div 16 mod 16 = n div 16"
    using div_mult_mod_eq[of "n div 16" 16] by (simp only: div_16_16)
  have e2: "n div 4096 * 16 + n div 256 mod 16 = n div 256"
    using div_mult_mod_eq[of "n div 256" 16] by (simp only: div_256_16)
  have e3: "n div 4096 mod 16 = n div 4096"
    using assms by (rule div_4096_small)
  show ?thesis
    by (simp only: e3 e2 e1 e0)
qed

lemma decode_digits:
  "a < 16 \<Longrightarrow> b < 16 \<Longrightarrow> c < 16 \<Longrightarrow> d < 16 \<Longrightarrow>
   decode_uXXXX ([hex_digit a, hex_digit b, hex_digit c, hex_digit d] @ r)
     = Some (((a * 16 + b) * 16 + c) * 16 + d)"
  by (simp add: decode_uXXXX_def hex_value_hex_digit)

lemma decode_u_escape:
  assumes "n < 65536"
  shows "decode_uXXXX (drop 2 (u_escape n) @ r) = Some n"
proof -
  have "drop 2 (u_escape n) @ r
      = [hex_digit (n div 4096 mod 16), hex_digit (n div 256 mod 16),
         hex_digit (n div 16 mod 16), hex_digit (n mod 16)] @ r"
    by (simp add: u_escape_def)
  moreover have "decode_uXXXX ([hex_digit (n div 4096 mod 16), hex_digit (n div 256 mod 16),
         hex_digit (n div 16 mod 16), hex_digit (n mod 16)] @ r)
      = Some (((n div 4096 mod 16 * 16 + n div 256 mod 16) * 16 + n div 16 mod 16) * 16 + n mod 16)"
    by (rule decode_digits) simp_all
  ultimately show ?thesis
    by (simp only: four_hex_digits[OF assms])
qed


lemma escape_special:
  assumes "c = 34 \<or> c = 92 \<or> c = 10 \<or> c = 13 \<or> c = 9 \<or> c = 8 \<or> c = 12"
  shows "\<exists>e. escape_char c = [92, e] \<and> backslash e = Some c \<and> e \<noteq> 117"
  using assms by (auto simp add: escape_char_def backslash_def)

lemma escape_printable:
  assumes "32 \<le> c" "c \<le> 126" "c \<noteq> 34" "c \<noteq> 92"
  shows "escape_char c = [c]"
  using assms by (auto simp add: escape_char_def)

lemma escape_bmp:
  assumes "c < 0x10000" "c < 32 \<or> 126 < c" "c \<noteq> 10" "c \<noteq> 13" "c \<noteq> 9" "c \<noteq> 8" "c \<noteq> 12"
  shows "escape_char c = u_escape c"
  using assms by (auto simp add: escape_char_def)

lemma escape_astral:
  assumes "0x10000 \<le> c"
  shows "escape_char c = u_escape (0xD800 + (c - 0x10000) div 1024 mod 1024)
           @ u_escape (0xDC00 + (c - 0x10000) mod 1024)"
  using assms by (auto simp add: escape_char_def)

lemma u_escape_form: "u_escape n = 92 # 117 # drop 2 (u_escape n)"
  by (simp add: u_escape_def)

lemma u_escape_length [simp]: "length (drop 2 (u_escape n)) = 4"
  by (simp add: u_escape_def)

lemma u_escape_length6 [simp]: "length (u_escape n) = 6"
  by (simp add: u_escape_def)

lemma drop4_digits [simp]: "drop 4 (drop 2 (u_escape n) @ t) = t"
  by (simp add: u_escape_def)

lemma drop6_digits [simp]: "drop 6 (drop 2 (u_escape n) @ t) = drop 2 t"
  by (simp add: u_escape_def)

lemma scan_plain:
  "c \<noteq> 34 \<Longrightarrow> c \<noteq> 92 \<Longrightarrow> 32 \<le> c \<Longrightarrow> scanstring (c # t) = cons_result c (scanstring t)"
  by (subst scanstring.simps) simp

lemma scan_quote: "scanstring (34 # t) = Some ([], t)"
  by (subst scanstring.simps) simp

lemma scan_backslash:
  "backslash e = Some c \<Longrightarrow> e \<noteq> 117 \<Longrightarrow> scanstring (92 # e # t) = cons_result c (scanstring t)"
  by (subst scanstring.simps) simp

lemma scan_u_single:
  "decode_uXXXX es = Some u \<Longrightarrow> \<not> high_surrogate u \<or> take 2 (drop 4 es) \<noteq> [92, 117] \<Longrightarrow>
   scanstring (92 # 117 # es) = cons_result u (scanstring (drop 4 es))"
  by (subst scanstring.simps) (auto simp add: high_surrogate_def)

lemma scan_u_pair:
  "decode_uXXXX es = Some u \<Longrightarrow> high_surrogate u \<Longrightarrow> take 2 (drop 4 es) = [92, 117] \<Longrightarrow>
   decode_uXXXX (drop 6 es) = Some u2 \<Longrightarrow>
   scanstring (92 # 117 # es) =
     (if low_surrogate u2
      then cons_result (0x10000 + (u - 0xD800) * 1024 + (u2 - 0xDC00)) (scanstring (drop 10 es))
      else cons_result u (scanstring (drop 4 es)))"
  by (subst scanstring.simps) (simp add: high_surrogate_def low_surrogate_def)


lemma char_cases:
  fixes c :: nat
  obtains (special) "c = 34 \<or> c = 92 \<or> c = 10 \<or> c = 13 \<or> c = 9 \<or> c = 8 \<or> c = 12"
  | (printable) "32 \<le> c" "c \<le> 126" "c \<noteq> 34" "c \<noteq> 92"
  | (bmp) "c < 0x10000" "c < 32 \<or> 126 < c" "c \<noteq> 10" "c \<noteq> 13" "c \<noteq> 9" "c \<noteq> 8" "c \<noteq> 12"
  | (astral) "0x10000 \<le> c"
  by linarith

lemma drop2_u_escape_append: "drop 2 (u_escape n @ t) = drop 2 (u_escape n) @ t"
  by (simp add: u_escape_def)

lemma take2_u_escape_append: "take 2 (u_escape n @ t) = [92, 117]"
  by (simp add: u_escape_def)

lemma next_escape:
  assumes "cs = [] \<or> \<not> low_surrogate (hd cs)"
    and "take 2 (concat (map escape_char cs) @ 34 # rest) = [92, 117]"
  shows "\<exists>u. decode_uXXXX (drop 2 (concat (map escape_char cs) @ 34 # rest)) = Some u \<and> \<not> low_surrogate u"
proof (cases cs)
  case Nil
  with assms(2) show ?thesis by simp
next
  case (Cons d ds)
  show ?thesis
  proof (cases d rule: char_cases)
    case special
    then obtain e where "escape_char d = [92, e]" "e \<noteq> 117"
      using escape_special by blast
    with assms(2) Cons show ?thesis by simp
  next
    case printable
    then have "escape_char d = [d]" by (rule escape_printable)
    with assms(2) Cons printable show ?thesis by simp
  next
    case bmp
    then have "escape_char d = u_escape d" by (rule escape_bmp)
    then have "decode_uXXXX (drop 2 (concat (map escape_char cs) @ 34 # rest)) = Some d"
      using bmp(1) Cons by (simp add: drop2_u_escape_append decode_u_escape)
    moreover have "\<not> low_surrogate d"
      using assms(1) Cons by simp
    ultimately show ?thesis by blast
  next
    case astral
    let ?h = "0xD800 + (d - 0x10000) div 1024 mod 1024"
    have h: "?h < 65536" "\<not> low_surrogate ?h"
      by (simp_all add: low_surrogate_def)
    have "escape_char d = u_escape ?h @ u_escape (0xDC00 + (d - 0x10000) mod 1024)"
      using astral by (rule escape_astral)
    then have "decode_uXXXX (drop 2 (concat (map escape_char cs) @ 34 # rest)) = Some ?h"
      using h(1) Cons by (simp only: list.map concat.simps append_assoc drop2_u_escape_append decode_u_escape)
    with h(2) show ?thesis by blast
  qed
qed


lemma cons_result_Some [simp]: "cons_result c (Some (s, r)) = Some (c # s, r)"
  by (simp add: cons_result_def)

lemma is_str_Cons [simp]: "is_str (c # cs) = (c < 0x110000 \<and> is_str cs)"
  by (simp add: is_str_def)

lemma no_surrogate_pair_tail: "no_surrogate_pair (c # cs) \<Longrightarrow> no_surrogate_pair cs"
  by (cases cs) simp_all

lemma no_surrogate_pair_next:
  "no_surrogate_pair (c # cs) \<Longrightarrow> high_surrogate c \<Longrightarrow> cs = [] \<or> \<not> low_surrogate (hd cs)"
  by (cases cs) simp_all

lemma astral_join:
  assumes "0x10000 \<le> c" "c < 0x110000"
  shows "0x10000 + (0xD800 + (c - 0x10000) div 1024 mod 1024 - 0xD800) * 1024
           + (0xDC00 + (c - 0x10000) mod 1024 - 0xDC00) = (c::nat)"
proof -
  have "(c - 0x10000) div 1024 < 1024"
    using assms(2) by (simp add: less_mult_imp_div_less)
  then have "(c - 0x10000) div 1024 mod 1024 = (c - 0x10000) div 1024"
    by simp
  moreover have "(c - 0x10000) div 1024 * 1024 + (c - 0x10000) mod 1024 = c - 0x10000"
    by (rule div_mult_mod_eq)
  ultimately show ?thesis
    using assms(1) by simp
qed

lemma scanstring_encode:
  assumes "is_str s" and "no_surrogate_pair s"
  shows "scanstring (concat (map escape_char s) @ 34 # rest) = Some (s, rest)"
  using assms
proof (induction s)
  case Nil
  show ?case by (simp add: scan_quote)
next
  case (Cons c cs)
  let ?T = "concat (map escape_char cs) @ 34 # rest"
  have IH: "scanstring ?T = Some (cs, rest)"
    using Cons by (simp add: no_surrogate_pair_tail)
  have shape: "concat (map escape_char (c # cs)) @ 34 # rest = escape_char c @ ?T"
    by simp
  show ?case
  proof (cases c rule: char_cases)
    case special
    then obtain e where e: "escape_char c = [92, e]" "backslash e = Some c" "e \<noteq> 117"
      using escape_special by blast
    show ?thesis
      unfolding shape e(1) using scan_backslash[OF e(2,3), of ?T] IH by simp
  next
    case printable
    then have "escape_char c = [c]" by (rule escape_printable)
    then show ?thesis
      unfolding shape using scan_plain[of c ?T] printable IH by simp
  next
    case bmp
    then have e: "escape_char c = u_escape c" by (rule escape_bmp)
    have d: "decode_uXXXX (drop 2 (u_escape c) @ ?T) = Some c"
      using bmp(1) by (rule decode_u_escape)
    have dr: "drop 4 (drop 2 (u_escape c) @ ?T) = ?T"
      by simp
    have "scanstring (92 # 117 # drop 2 (u_escape c) @ ?T) = cons_result c (scanstring ?T)"
    proof (cases "high_surrogate c \<and> take 2 ?T = [92, 117]")
      case False
      then show ?thesis
        using scan_u_single[OF d] by (simp only: dr) blast
    next
      case True
      then have "cs = [] \<or> \<not> low_surrogate (hd cs)"
        using Cons.prems(2) no_surrogate_pair_next by blast
      then obtain u where u: "decode_uXXXX (drop 2 ?T) = Some u" "\<not> low_surrogate u"
        using next_escape True by blast
      have "drop 6 (drop 2 (u_escape c) @ ?T) = drop 2 ?T"
        by simp
      then show ?thesis
        using scan_u_pair[OF d, of u] True u by (simp only: dr if_False)
    qed
    then show ?thesis
      unfolding shape e using IH by (subst u_escape_form) simp
  next
    case astral
    let ?h = "0xD800 + (c - 0x10000) div 1024 mod 1024"
    let ?l = "0xDC00 + (c - 0x10000) mod 1024"
    have e: "escape_char c = u_escape ?h @ u_escape ?l"
      using astral by (rule escape_astral)
    have h: "?h < 65536" "high_surrogate ?h"
      by (simp_all add: high_surrogate_def)
    have l: "?l < 65536" "low_surrogate ?l"
      by (simp_all add: low_surrogate_def)
    let ?es = "drop 2 (u_escape ?h) @ u_escape ?l @ ?T"
    have d1: "decode_uXXXX ?es = Some ?h"
      using h(1) by (rule decode_u_escape)
    have t2: "take 2 (drop 4 ?es) = [92, 117]"
      by (simp add: u_escape_def)
    have d2: "decode_uXXXX (drop 6 ?es) = Some ?l"
      using decode_u_escape[OF l(1), of ?T] by (simp add: drop2_u_escape_append)
    have dr: "drop 10 ?es = ?T"
      by (simp add: u_escape_def)
    have "scanstring (92 # 117 # ?es)
        = cons_result (0x10000 + (?h - 0xD800) * 1024 + (?l - 0xDC00)) (scanstring ?T)"
      using scan_u_pair[OF d1 h(2) t2 d2] l(2) by (simp only: dr if_True)
    moreover have "c < 0x110000"
      using Cons.prems(1) by simp
    then have "0x10000 + (?h - 0xD800) * 1024 + (?l - 0xDC00) = c"
      by (rule astral_join[OF astral])
    ultimately have "scanstring (92 # 117 # ?es) = cons_result c (scanstring ?T)"
      by (simp only:)
    moreover have "escape_char c @ ?T = 92 # 117 # ?es"
      unfolding e by (subst u_escape_form) simp
    ultimately show ?thesis
      unfolding shape using IH by simp
  qed
qed

subsection \<open>Numbers written and read back\<close>

lemma takeWhile_stop: "takeWhile P r = [] \<Longrightarrow> takeWhile P (s @ r) = takeWhile P s"
  by (induction s) simp_all

lemma dropWhile_stop: "takeWhile P r = [] \<Longrightarrow> dropWhile P (s @ r) = dropWhile P s @ r"
  by (induction s) (simp_all add: takeWhile_eq_Nil_iff dropWhile_eq_self_iff)

lemma delimited_digits [simp]: "delimited r \<Longrightarrow> takeWhile is_digit r = []"
  by (cases r) (auto simp add: delimited_def is_digit_def)

lemma delimited_ws_free: "delimited r \<Longrightarrow> r = [] \<or> hd r = 44 \<or> hd r = 10"
  by (cases r) (auto simp add: delimited_def)

lemma opt_minus_append:
  "delimited r \<Longrightarrow> opt_minus (s @ r) = (fst (opt_minus s), snd (opt_minus s) @ r)"
  by (cases s; cases r) (auto simp add: opt_minus_def delimited_def)

lemma opt_sign_append:
  "delimited r \<Longrightarrow> opt_sign (s @ r) = (fst (opt_sign s), snd (opt_sign s) @ r)"
  by (cases s; cases r) (auto simp add: opt_sign_def delimited_def)

lemma int_part_append:
  "delimited r \<Longrightarrow> int_part (s @ r) = map_option (\<lambda>(d, t). (d, t @ r)) (int_part s)"
  by (cases s; cases r)
    (auto simp add: int_part_def delimited_def is_digit_def takeWhile_stop dropWhile_stop)

lemma frac_part_append:
  "delimited r \<Longrightarrow> frac_part (s @ r) = (fst (frac_part s), snd (frac_part s) @ r)"
  by (cases s; cases r)
    (auto simp add: frac_part_def delimited_def is_digit_def takeWhile_stop dropWhile_stop)

lemma exp_part_append:
  assumes "delimited r"
  shows "exp_part (s @ r) = (fst (exp_part s), snd (exp_part s) @ r)"
proof (cases s)
  case Nil
  with assms show ?thesis
    by (cases r) (auto simp add: exp_part_def delimited_def)
next
  case (Cons c cs)
  have "takeWhile is_digit (snd (opt_sign cs) @ r) = takeWhile is_digit (snd (opt_sign cs))"
    "dropWhile is_digit (snd (opt_sign cs) @ r) = dropWhile is_digit (snd (opt_sign cs)) @ r"
    using assms by (simp_all add: takeWhile_stop dropWhile_stop)
  then show ?thesis
    using Cons by (simp add: exp_part_def opt_sign_append[OF assms])
qed

lemma match_number_append:
  assumes "delimited r"
  shows "match_number (s @ r) = map_option (\<lambda>(i, f, e, t). (i, f, e, t @ r)) (match_number s)"
  by (simp add: match_number_def opt_minus_append[OF assms] int_part_append[OF assms]
      frac_part_append[OF assms] exp_part_append[OF assms] case_prod_beta split: option.splits)

lemma opt_minus_parts: "fst (opt_minus s) @ snd (opt_minus s) = s"
  by (cases s) (simp_all add: opt_minus_def)

lemma opt_sign_parts: "fst (opt_sign s) @ snd (opt_sign s) = s"
  by (cases s) (simp_all add: opt_sign_def)

lemma int_part_parts: "int_part s = Some (d, t) \<Longrightarrow> d @ t = s"
  by (cases s) (auto simp add: int_part_def split: if_splits)

lemma frac_part_parts: "fst (frac_part s) @ snd (frac_part s) = s"
  by (cases s) (simp_all add: frac_part_def)

lemma exp_part_parts: "fst (exp_part s) @ snd (exp_part s) = s"
proof (cases s)
  case Nil
  then show ?thesis by (simp add: exp_part_def)
next
  case (Cons c cs)
  have "fst (opt_sign cs) @ takeWhile is_digit (snd (opt_sign cs)) @ dropWhile is_digit (snd (opt_sign cs)) = cs"
    by (simp add: opt_sign_parts)
  then show ?thesis
    using Cons by (simp add: exp_part_def)
qed

lemma match_number_parts:
  assumes "match_number s = Some (i, f, e, t)"
  shows "i @ f @ e @ t = s"
proof -
  obtain d s2 where d: "int_part (snd (opt_minus s)) = Some (d, s2)"
    using assms by (auto simp add: match_number_def split: option.splits)
  have parts: "i = fst (opt_minus s) @ d" "f = fst (frac_part s2)"
    "e = fst (exp_part (snd (frac_part s2)))" "t = snd (exp_part (snd (frac_part s2)))"
    using assms d by (simp_all add: match_number_def)
  have "d @ s2 = snd (opt_minus s)"
    using d by (rule int_part_parts)
  then have "s = fst (opt_minus s) @ d @ s2"
    by (simp add: opt_minus_parts)
  also have "s2 = f @ e @ t"
    unfolding parts using frac_part_parts[of s2] exp_part_parts[of "snd (frac_part s2)"]
    by (metis append_assoc)
  finally show ?thesis
    by (simp add: parts(1))
qed


lemma is_digit_add: "d < 10 \<Longrightarrow> is_digit (48 + d)"
  by (simp add: is_digit_def)

lemma nat_repr_digits: "list_all is_digit (nat_repr n)"
proof (induction n rule: nat_repr.induct)
  case (1 n)
  show ?case
  proof (cases "n < 10")
    case True
    then show ?thesis by (subst nat_repr.simps) (simp add: is_digit_add)
  next
    case False
    then show ?thesis using 1 by (subst nat_repr.simps) (simp add: is_digit_add)
  qed
qed

lemma nat_repr_nonempty: "nat_repr n \<noteq> []"
  by (subst nat_repr.simps) simp

lemma nat_repr_head: "0 < n \<Longrightarrow> hd (nat_repr n) \<noteq> 48"
proof (induction n rule: nat_repr.induct)
  case (1 n)
  show ?case
  proof (cases "n < 10")
    case True
    then show ?thesis using 1(2) by (subst nat_repr.simps) simp
  next
    case False
    then have "hd (nat_repr (n div 10)) \<noteq> 48"
      using 1(1) by simp
    then show ?thesis
      using False nat_repr_nonempty[of "n div 10"] by (subst nat_repr.simps) simp
  qed
qed

lemma digits_value_append: "digits_value (ds @ [d]) = 10 * digits_value ds + (d - 48)"
  by (simp add: digits_value_def)

lemma digits_value_nat_repr: "digits_value (nat_repr n) = n"
proof (induction n rule: nat_repr.induct)
  case (1 n)
  show ?case
  proof (cases "n < 10")
    case True
    then show ?thesis by (subst nat_repr.simps) (simp add: digits_value_def)
  next
    case False
    then show ?thesis using 1 by (subst nat_repr.simps) (simp add: digits_value_append)
  qed
qed

lemma takeWhile_all: "list_all P xs \<Longrightarrow> takeWhile P xs = xs"
  by (induction xs) simp_all

lemma dropWhile_all: "list_all P xs \<Longrightarrow> dropWhile P xs = []"
  by (induction xs) simp_all

lemma int_part_nat_repr: "int_part (nat_repr n) = Some (nat_repr n, [])"
proof (cases "n = 0")
  case True
  then show ?thesis by (subst (1 2) nat_repr.simps) (simp add: int_part_def)
next
  case False
  obtain d ds where ds: "nat_repr n = d # ds"
    using nat_repr_nonempty[of n] by (cases "nat_repr n") auto
  have "d \<noteq> 48" "is_digit d" "list_all is_digit ds"
    using nat_repr_head[of n] nat_repr_digits[of n] False ds by simp_all
  then show ?thesis
    by (simp add: int_part_def ds takeWhile_all dropWhile_all)
qed

lemma nat_repr_not_minus: "hd (nat_repr n) \<noteq> 45"
  using nat_repr_digits[of n] nat_repr_nonempty[of n]
  by (cases "nat_repr n") (auto simp add: is_digit_def)

lemma match_number_int_repr: "match_number (int_repr i) = Some (int_repr i, [], [], [])"
proof (cases "i < 0")
  case True
  then show ?thesis
    by (simp add: match_number_def int_repr_def opt_minus_def int_part_nat_repr frac_part_def exp_part_def)
next
  case False
  obtain d ds where ds: "nat_repr (nat i) = d # ds"
    using nat_repr_nonempty[of "nat i"] by (cases "nat_repr (nat i)") auto
  have "d \<noteq> 45"
    using nat_repr_not_minus[of "nat i"] ds by simp
  then have "opt_minus (nat_repr (nat i)) = ([], nat_repr (nat i))"
    by (simp add: opt_minus_def ds)
  then show ?thesis
    using False
    by (simp add: match_number_def int_repr_def int_part_nat_repr frac_part_def exp_part_def)
qed

lemma int_of_text_int_repr: "int_of_text (int_repr i) = i"
proof (cases "i < 0")
  case True
  then show ?thesis
    by (simp add: int_of_text_def int_repr_def digits_value_nat_repr)
next
  case False
  obtain d ds where ds: "nat_repr (nat i) = d # ds"
    using nat_repr_nonempty[of "nat i"] by (cases "nat_repr (nat i)") auto
  have "d \<noteq> 45"
    using nat_repr_not_minus[of "nat i"] ds by simp
  then have "int_of_text (nat_repr (nat i)) = int (digits_value (nat_repr (nat i)))"
    by (simp add: int_of_text_def ds)
  then show ?thesis
    using False by (simp add: int_repr_def digits_value_nat_repr)
qed

subsection \<open>Values written and read back\<close>

lemma skip_ws_newline_indent [simp]: "skip_ws (newline_indent k @ t) = skip_ws t"
  by (simp add: skip_ws_def newline_indent_def is_ws_def dropWhile_append)

lemma skip_ws_none: "\<not> is_ws c \<Longrightarrow> skip_ws (c # t) = c # t"
  by (simp add: skip_ws_def)

lemma skip_ws_space [simp]: "skip_ws (32 # t) = skip_ws t"
  by (simp add: skip_ws_def is_ws_def)

lemma match_number_head:
  "match_number t = Some x \<Longrightarrow> \<exists>c u. t = c # u \<and> (c = 45 \<or> is_digit c)"
  by (cases t) (auto simp add: match_number_def opt_minus_def int_part_def is_digit_def
      split: option.splits if_splits)

lemma int_repr_head: "\<exists>c u. int_repr i = c # u \<and> (c = 45 \<or> is_digit c)"
  using match_number_head[OF match_number_int_repr] by blast

lemma float_literal_head:
  "float_literal t \<Longrightarrow> \<exists>c u. t = c # u \<and> (c = 45 \<or> is_digit c)"
  by (auto simp add: float_literal_def split: option.splits dest: match_number_head)

lemma iterencode_head:
  assumes "decodable rt v"
  shows "\<exists>c t. iterencode rt level v = c # t \<and> opens_value c"
proof (cases v)
  case (JInt i)
  then show ?thesis
    using int_repr_head[of i] by (auto simp add: opens_value_def is_ws_def is_digit_def)
next
  case (JFloat w)
  then show ?thesis
    using assms float_literal_head[of "float_repr rt w"]
    by (auto simp add: float_text_def ustr_def opens_value_def is_ws_def is_digit_def split: if_splits)
qed (auto simp add: ustr_def encode_string_def opens_value_def is_ws_def)

lemma skip_ws_iterencode:
  assumes "decodable rt v"
  shows "skip_ws (iterencode rt level v @ t) = iterencode rt level v @ t"
  using iterencode_head[OF assms, of level] by (auto simp add: opens_value_def skip_ws_none)


lemma strip_prefix_append [simp]: "strip_prefix p (p @ r) = Some r"
  by (simp add: strip_prefix_def)

lemma scan_scalar_null: "scan_scalar rt (ustr ''null'' @ r) = Some (JNull, r)"
  by (simp add: scan_scalar_def ustr_def strip_prefix_def)

lemma scan_scalar_true: "scan_scalar rt (ustr ''true'' @ r) = Some (JBool True, r)"
  by (simp add: scan_scalar_def ustr_def strip_prefix_def)

lemma scan_scalar_false: "scan_scalar rt (ustr ''false'' @ r) = Some (JBool False, r)"
  by (simp add: scan_scalar_def ustr_def strip_prefix_def)

lemma scan_scalar_string:
  assumes "is_str s" and "no_surrogate_pair s"
  shows "scan_scalar rt (encode_string s @ r) = Some (JStr s, r)"
  using scanstring_encode[OF assms, of r] by (simp add: scan_scalar_def encode_string_def)

lemma scan_scalar_number:
  assumes "match_number t = Some (i, f, e, [])" and "delimited r"
  shows "scan_scalar rt (t @ r) =
     (if f \<noteq> [] \<or> e \<noteq> [] then Some (JFloat (float_of_text rt (i @ f @ e)), r)
      else Some (JInt (int_of_text i), r))"
proof -
  obtain c u where t: "t = c # u" "c = 45 \<or> is_digit c"
    using match_number_head[OF assms(1)] by blast
  have "match_number (t @ r) = Some (i, f, e, r)"
    using assms by (simp add: match_number_append)
  then show ?thesis
    using t by (auto simp add: scan_scalar_def is_digit_def)
qed

lemma scan_scalar_int:
  assumes "delimited r"
  shows "scan_scalar rt (int_repr i @ r) = Some (JInt i, r)"
  using scan_scalar_number[OF match_number_int_repr assms, of rt i]
  by (simp add: int_of_text_int_repr)

lemma scan_scalar_float:
  assumes "decodable rt (JFloat w)" and "delimited r"
  shows "scan_scalar rt (float_text rt w @ r) = Some (JFloat w, r)"
proof -
  consider (nan) "is_nan w" | (pinf) "\<not> is_nan w" "w = pos_inf" | (ninf) "\<not> is_nan w" "w = neg_inf"
    | (fin) "\<not> is_nan w" "w \<noteq> pos_inf" "w \<noteq> neg_inf"
    by blast
  then show ?thesis
  proof cases
    case nan
    then have "w = nan" using assms(1) by simp
    moreover have "match_number (ustr ''NaN'' @ r) = None"
      by (simp add: match_number_def opt_minus_def int_part_def ustr_def is_digit_def)
    ultimately show ?thesis
      using nan by (simp add: float_text_def scan_scalar_def) (simp add: ustr_def strip_prefix_def)
  next
    case pinf
    moreover have "match_number (ustr ''Infinity'' @ r) = None"
      by (simp add: match_number_def opt_minus_def int_part_def ustr_def is_digit_def)
    ultimately show ?thesis
      by (simp add: float_text_def scan_scalar_def) (simp add: ustr_def strip_prefix_def)
  next
    case ninf
    moreover have "match_number (ustr ''-Infinity'' @ r) = None"
      by (simp add: match_number_def opt_minus_def int_part_def ustr_def is_digit_def)
    moreover have "neg_inf \<noteq> pos_inf"
      by (simp add: neg_inf_def pos_inf_def)
    ultimately show ?thesis
      by (simp add: float_text_def scan_scalar_def) (simp add: ustr_def strip_prefix_def)
  next
    case fin
    then have lit: "float_literal (float_repr rt w)" and inv: "float_of_text rt (float_repr rt w) = w"
      using assms(1) by simp_all
    then obtain i f e where m: "match_number (float_repr rt w) = Some (i, f, e, [])" "f \<noteq> [] \<or> e \<noteq> []"
      by (auto simp add: float_literal_def split: option.splits)
    have "i @ f @ e = float_repr rt w"
      using match_number_parts[OF m(1)] by simp
    then show ?thesis
      using scan_scalar_number[OF m(1) assms(2), of rt] m(2) inv fin
      by (simp add: float_text_def)
  qed
qed

lemma scan_once_scalar:
  assumes "c \<noteq> 123" and "c \<noteq> 91"
  shows "scan_once rt (Suc n) (c # t) = scan_scalar rt (c # t)"
  using assms by simp

lemma join_Cons: "join sep (x # xs) = x @ (if xs = [] then [] else sep @ join sep xs)"
  by (cases xs) simp_all

lemma delimited_comma [simp]: "delimited (44 # t)"
  by (simp add: delimited_def)

lemma delimited_newline_indent [simp]: "delimited (newline_indent k @ t)"
  by (simp add: delimited_def newline_indent_def)

lemma delimited_Nil [simp]: "delimited []"
  by (simp add: delimited_def)

lemma skip_ws_comma [simp]: "skip_ws (44 # t) = 44 # t"
  by (simp add: skip_ws_def is_ws_def)

lemma skip_ws_close [simp]: "skip_ws (93 # t) = 93 # t" "skip_ws (125 # t) = 125 # t"
  by (simp_all add: skip_ws_def is_ws_def)

lemma skip_ws_colon_quote [simp]: "skip_ws (58 # t) = 58 # t" "skip_ws (34 # t) = 34 # t"
  by (simp_all add: skip_ws_def is_ws_def)

text \<open>The loop of an array over the items still to read.\<close>

lemma JSONArray_items:
  assumes each: "\<And>x level r n. x \<in> set xs \<Longrightarrow> delimited r \<Longrightarrow> weight x \<le> n \<Longrightarrow>
      scan_once rt n (iterencode rt level x @ r) = Some (x, r)"
    and ok: "list_all (decodable rt) xs"
    and "xs \<noteq> []"
    and "sum_list (map (\<lambda>x. Suc (weight x)) xs) \<le> n"
  shows "JSONArray rt n
      (join (44 # newline_indent (Suc level)) (map (iterencode rt (Suc level)) xs)
        @ newline_indent level @ 93 # r) seen
     = Some (JArr (seen @ xs), r)"
  using assms
proof (induction xs arbitrary: n seen)
  case Nil
  then show ?case by simp
next
  case (Cons x xs)
  obtain m where n: "n = Suc m" and m: "weight x \<le> m" "sum_list (map (\<lambda>x. Suc (weight x)) xs) \<le> m"
    using Cons.prems(4) by (cases n) auto
  show ?case
  proof (cases "xs = []")
    case True
    have "scan_once rt m (iterencode rt (Suc level) x @ newline_indent level @ 93 # r)
        = Some (x, newline_indent level @ 93 # r)"
      using Cons.prems(1)[of x] m(1) by simp
    then show ?thesis
      using True by (simp add: n)
  next
    case False
    let ?rest = "join (44 # newline_indent (Suc level)) (map (iterencode rt (Suc level)) xs)
        @ newline_indent level @ 93 # r"
    have first: "scan_once rt m (iterencode rt (Suc level) x @ 44 # newline_indent (Suc level) @ ?rest)
        = Some (x, 44 # newline_indent (Suc level) @ ?rest)"
      using Cons.prems(1)[of x] m(1) by simp
    obtain y ys where ys: "xs = y # ys"
      using False by (cases xs) auto
    have "decodable rt y"
      using Cons.prems(2) ys by simp
    then have ws: "skip_ws ?rest = ?rest"
      unfolding ys by (simp add: join_Cons skip_ws_iterencode)
    have "JSONArray rt m ?rest (seen @ [x]) = Some (JArr ((seen @ [x]) @ xs), r)"
      using Cons.prems(1,2) False m(2) by (intro Cons.IH) simp_all
    then show ?thesis
      using first False ws by (simp add: n join_Cons)
  qed
qed


text \<open>The loop of an object over the members still to read, entered after the opening quote of a key.\<close>

lemma JSONObject_members:
  assumes each: "\<And>k x level r n. (k, x) \<in> set kvs \<Longrightarrow> delimited r \<Longrightarrow> weight x \<le> n \<Longrightarrow>
      scan_once rt n (iterencode rt level x @ r) = Some (x, r)"
    and ok: "list_all (\<lambda>(k, v). is_str k \<and> decodable rt v) kvs"
    and pairs: "list_all (\<lambda>(k, v). no_surrogate_pair k \<and> no_surrogate_pairs v) kvs"
    and "kvs \<noteq> []"
    and "sum_list (map (\<lambda>(k, v). Suc (weight v)) kvs) \<le> n"
    and "34 # s = join (44 # newline_indent (Suc level))
            (map (\<lambda>(k, v). encode_string k @ [58, 32] @ iterencode rt (Suc level) v) kvs)
          @ newline_indent level @ 125 # r"
  shows "JSONObject rt n s seen = Some (JObj (dict_of_pairs (seen @ kvs)), r)"
  using assms
proof (induction kvs arbitrary: n seen s)
  case Nil
  then show ?case by simp
next
  case (Cons kv kvs)
  obtain k v where kv: "kv = (k, v)"
    by (cases kv)
  obtain m where n: "n = Suc m" and m: "weight v \<le> m" "sum_list (map (\<lambda>(k, v). Suc (weight v)) kvs) \<le> m"
    using Cons.prems(5) kv by (cases n) auto
  have k: "is_str k" "no_surrogate_pair k" and v: "decodable rt v"
    using Cons.prems(2,3) kv by simp_all
  let ?member = "\<lambda>(k, v). encode_string k @ [58, 32] @ iterencode rt (Suc level) v"
  let ?sep = "44 # newline_indent (Suc level)"
  let ?after = "(if kvs = [] then [] else ?sep @ join ?sep (map ?member kvs)) @ newline_indent level @ 125 # r"
  have s: "s = concat (map escape_char k) @ 34 # 58 # 32 # iterencode rt (Suc level) v @ ?after"
    using Cons.prems(6) by (simp add: kv join_Cons encode_string_def)
  have key: "scanstring s = Some (k, 58 # 32 # iterencode rt (Suc level) v @ ?after)"
    unfolding s using k by (rule scanstring_encode)
  have "delimited ?after"
    by simp
  then have val: "scan_once rt m (iterencode rt (Suc level) v @ ?after) = Some (v, ?after)"
    using Cons.prems(1)[of k v] m(1) kv by simp
  have ws: "skip_ws (iterencode rt (Suc level) v @ ?after) = iterencode rt (Suc level) v @ ?after"
    using v by (rule skip_ws_iterencode)
  show ?case
  proof (cases "kvs = []")
    case True
    then show ?thesis
      using key val ws by (simp add: n kv)
  next
    case False
    obtain k' v' kvs' where kvs: "kvs = (k', v') # kvs'"
      using False by (cases kvs) auto
    obtain s' where s': "34 # s' = join ?sep (map ?member kvs) @ newline_indent level @ 125 # r"
      unfolding kvs by (simp add: join_Cons encode_string_def)
    have each': "\<And>k x level r n. (k, x) \<in> set kvs \<Longrightarrow> delimited r \<Longrightarrow> weight x \<le> n \<Longrightarrow>
        scan_once rt n (iterencode rt level x @ r) = Some (x, r)"
    proof -
      fix k x level r n
      assume "(k, x) \<in> set kvs" "delimited r" "weight x \<le> n"
      then show "scan_once rt n (iterencode rt level x @ r) = Some (x, r)"
        using Cons.prems(1)[of k x r n level] by simp
    qed
    have ok': "list_all (\<lambda>(k, v). is_str k \<and> decodable rt v) kvs"
      and pairs': "list_all (\<lambda>(k, v). no_surrogate_pair k \<and> no_surrogate_pairs v) kvs"
      using Cons.prems(2,3) by simp_all
    have "JSONObject rt m s' (seen @ [kv]) = Some (JObj (dict_of_pairs ((seen @ [kv]) @ kvs)), r)"
      by (rule Cons.IH[OF each' ok' pairs' False m(2) s'])
    moreover have "skip_ws (newline_indent (Suc level) @ join ?sep (map ?member kvs) @ newline_indent level @ 125 # r)
        = 34 # s'"
      unfolding s'[symmetric] by simp
    ultimately show ?thesis
      using key val ws False by (simp add: n kv)
  qed
qed

lemma dict_set_new: "k \<notin> fst ` set d \<Longrightarrow> dict_set d k v = d @ [(k, v)]"
  by (induction d) auto

lemma dict_of_pairs_distinct:
  assumes "distinct (map fst kvs)"
  shows "dict_of_pairs kvs = kvs"
proof -
  have "distinct (map fst (d @ kvs)) \<Longrightarrow> foldl (\<lambda>d (k, v). dict_set d k v) d kvs = d @ kvs" for d
  proof (induction kvs arbitrary: d)
    case Nil
    then show ?case by simp
  next
    case (Cons kv kvs)
    obtain k v where kv: "kv = (k, v)"
      by (cases kv)
    have "dict_set d k v = d @ [(k, v)]"
      using Cons.prems kv by (intro dict_set_new) auto
    moreover have "distinct (map fst ((d @ [(k, v)]) @ kvs))"
      using Cons.prems kv by simp
    ultimately show ?case
      using Cons.IH[of "d @ [(k, v)]"] kv by simp
  qed
  from this[of "[]"] assms show ?thesis
    by (simp add: dict_of_pairs_def)
qed

lemma scan_once_scalar_text:
  assumes "t = c # u" and "c \<noteq> 123" and "c \<noteq> 91"
  shows "scan_once rt (Suc n) (t @ r) = scan_scalar rt (t @ r)"
  using assms by simp

lemma weight_pos: "0 < weight v"
  by (cases v) simp_all

lemma scan_once_iterencode:
  assumes "decodable rt v" and "no_surrogate_pairs v" and "delimited r" and "weight v \<le> n"
  shows "scan_once rt n (iterencode rt level v @ r) = Some (v, r)"
  using assms
proof (induction v arbitrary: level r n)
  case JNull
  then obtain m where n: "n = Suc m" by (cases n) auto
  have "scan_once rt (Suc m) (ustr ''null'' @ r) = scan_scalar rt (ustr ''null'' @ r)"
    by (rule scan_once_scalar_text[of _ 110 "ustr ''ull''"]) (simp_all add: ustr_def)
  then show ?case
    by (simp add: n scan_scalar_null)
next
  case (JBool b)
  then obtain m where n: "n = Suc m" by (cases n) auto
  have "scan_once rt (Suc m) (ustr ''true'' @ r) = scan_scalar rt (ustr ''true'' @ r)"
    by (rule scan_once_scalar_text[of _ 116 "ustr ''rue''"]) (simp_all add: ustr_def)
  moreover have "scan_once rt (Suc m) (ustr ''false'' @ r) = scan_scalar rt (ustr ''false'' @ r)"
    by (rule scan_once_scalar_text[of _ 102 "ustr ''alse''"]) (simp_all add: ustr_def)
  ultimately show ?case
    by (simp add: n scan_scalar_true scan_scalar_false)
next
  case (JInt i)
  then obtain m where n: "n = Suc m" by (cases n) auto
  obtain c u where cu: "int_repr i = c # u" "c = 45 \<or> is_digit c"
    using int_repr_head by blast
  then have "c \<noteq> 123" "c \<noteq> 91"
    by (auto simp add: is_digit_def)
  then show ?case
    using scan_once_scalar_text[OF cu(1), of rt m r] JInt.prems(3)
    by (simp add: n scan_scalar_int)
next
  case (JFloat w)
  then obtain m where n: "n = Suc m" by (cases n) auto
  obtain c u where cu: "float_text rt w = c # u" "opens_value c"
    using iterencode_head[OF JFloat.prems(1), of 0] by auto
  have "c \<noteq> 123 \<and> c \<noteq> 91"
  proof (cases "is_nan w \<or> w = pos_inf \<or> w = neg_inf")
    case True
    then show ?thesis
      using cu(1) by (auto simp add: float_text_def ustr_def split: if_splits)
  next
    case False
    then have "float_literal (float_repr rt w)"
      using JFloat.prems(1) by simp
    then show ?thesis
      using float_literal_head[of "float_repr rt w"] cu(1) False
      by (auto simp add: float_text_def is_digit_def)
  qed
  then show ?case
    using scan_once_scalar_text[OF cu(1), of rt m r] JFloat.prems(1,3)
    by (simp add: n scan_scalar_float)
next
  case (JStr s)
  then obtain m where n: "n = Suc m" by (cases n) auto
  have "scan_once rt (Suc m) (encode_string s @ r) = scan_scalar rt (encode_string s @ r)"
    by (rule scan_once_scalar_text[of _ 34 "concat (map escape_char s) @ [34]"])
      (simp_all add: encode_string_def)
  then show ?case
    using JStr.prems(1,2) by (simp add: n scan_scalar_string)
next
  case (JArr xs)
  obtain m where n: "n = Suc m" and m: "sum_list (map (\<lambda>x. Suc (weight x)) xs) \<le> m"
    using JArr.prems(4) by (cases n) auto
  show ?case
  proof (cases "xs = []")
    case True
    then show ?thesis
      by (simp add: n ustr_def)
  next
    case False
    have each: "\<And>x level r n. x \<in> set xs \<Longrightarrow> delimited r \<Longrightarrow> weight x \<le> n \<Longrightarrow>
        scan_once rt n (iterencode rt level x @ r) = Some (x, r)"
    proof -
      fix x level r n
      assume x: "x \<in> set xs" and "delimited r" "weight x \<le> n"
      moreover have "decodable rt x" "no_surrogate_pairs x"
        using x JArr.prems(1,2) by (simp_all add: list_all_iff)
      ultimately show "scan_once rt n (iterencode rt level x @ r) = Some (x, r)"
        by (intro JArr.IH)
    qed
    have ok: "list_all (decodable rt) xs"
      using JArr.prems(1) by simp
    let ?items = "join (44 # newline_indent (Suc level)) (map (iterencode rt (Suc level)) xs)
        @ newline_indent level @ 93 # r"
    obtain y ys where ys: "xs = y # ys"
      using False by (cases xs) auto
    have "decodable rt y"
      using ok ys by simp
    then obtain c t where ct: "iterencode rt (Suc level) y = c # t" "opens_value c"
      using iterencode_head by blast
    then obtain t' where items: "?items = c # t'"
      unfolding ys by (simp add: join_Cons)
    have "skip_ws (newline_indent (Suc level) @ ?items) = c # t'"
      using ct(2) by (simp add: items opens_value_def skip_ws_none)
    moreover have "c \<noteq> 93"
      using ct(2) by (simp add: opens_value_def)
    moreover have "JSONArray rt m ?items [] = Some (JArr ([] @ xs), r)"
      using each ok False m by (rule JSONArray_items)
    ultimately show ?thesis
      using False by (simp add: n items)
  qed
next
  case (JObj kvs)
  obtain m where n: "n = Suc m" and m: "sum_list (map (\<lambda>(k, v). Suc (weight v)) kvs) \<le> m"
    using JObj.prems(4) by (cases n) auto
  show ?case
  proof (cases "kvs = []")
    case True
    then show ?thesis
      by (simp add: n ustr_def)
  next
    case False
    have ok: "list_all (\<lambda>(k, v). is_str k \<and> decodable rt v) kvs"
      and keys: "distinct (map fst kvs)"
      and pairs: "list_all (\<lambda>(k, v). no_surrogate_pair k \<and> no_surrogate_pairs v) kvs"
      using JObj.prems(1,2) by simp_all
    have each: "\<And>k x level r n. (k, x) \<in> set kvs \<Longrightarrow> delimited r \<Longrightarrow> weight x \<le> n \<Longrightarrow>
        scan_once rt n (iterencode rt level x @ r) = Some (x, r)"
    proof -
      fix k x level r n
      assume x: "(k, x) \<in> set kvs" and "delimited r" "weight x \<le> n"
      moreover have "decodable rt x" "no_surrogate_pairs x"
        using x ok pairs by (auto simp add: list_all_iff)
      moreover have "x \<in> Basic_BNFs.snds (k, x)"
        by simp
      ultimately show "scan_once rt n (iterencode rt level x @ r) = Some (x, r)"
        by (intro JObj.IH)
    qed
    let ?members = "join (44 # newline_indent (Suc level))
          (map (\<lambda>(k, v). encode_string k @ [58, 32] @ iterencode rt (Suc level) v) kvs)
        @ newline_indent level @ 125 # r"
    obtain k v kvs' where kvs: "kvs = (k, v) # kvs'"
      using False by (cases kvs) auto
    obtain s where s: "34 # s = ?members"
      unfolding kvs by (simp add: join_Cons encode_string_def)
    have "JSONObject rt m s [] = Some (JObj (dict_of_pairs ([] @ kvs)), r)"
      using each ok pairs False m s by (rule JSONObject_members)
    then have "JSONObject rt m s [] = Some (JObj kvs, r)"
      using keys by (simp add: dict_of_pairs_distinct)
    moreover have "skip_ws (newline_indent (Suc level) @ ?members) = 34 # s"
      unfolding s[symmetric] by simp
    ultimately show ?thesis
      using False by (simp add: n)
  qed
qed


lemma join_length:
  "sep \<noteq> [] \<Longrightarrow> sum_list (map (\<lambda>y. Suc (length y)) ys) \<le> Suc (length (join sep ys))"
proof (induction sep ys rule: join.induct)
  case (3 sep x y ys)
  then have "Suc 0 \<le> length sep"
    by (cases sep) simp_all
  moreover have "sum_list (map (\<lambda>y. Suc (length y)) (y # ys)) \<le> Suc (length (join sep (y # ys)))"
    using 3 by simp
  ultimately show ?case
    by simp
qed simp_all

lemma sum_list_le:
  "(\<And>x. x \<in> set xs \<Longrightarrow> f x \<le> g x) \<Longrightarrow> sum_list (map f xs) \<le> sum_list (map (g :: 'a \<Rightarrow> nat) xs)"
  by (induction xs) (simp_all add: add_mono)

lemma weight_le_length:
  assumes "decodable rt v"
  shows "weight v \<le> length (iterencode rt level v)"
  using assms
proof (induction v arbitrary: level)
  case (JArr xs)
  show ?case
  proof (cases "xs = []")
    case True
    then show ?thesis by (simp add: ustr_def)
  next
    case False
    have "sum_list (map (\<lambda>x. Suc (weight x)) xs)
        \<le> sum_list (map (\<lambda>x. Suc (length (iterencode rt (Suc level) x))) xs)"
      using JArr by (intro sum_list_le) (simp add: list_all_iff)
    also have "\<dots> = sum_list (map (\<lambda>y. Suc (length y)) (map (iterencode rt (Suc level)) xs))"
      by (simp add: comp_def)
    also have "\<dots> \<le> Suc (length (join (44 # newline_indent (Suc level)) (map (iterencode rt (Suc level)) xs)))"
      by (rule join_length) simp
    finally show ?thesis
      using False by simp
  qed
next
  case (JObj kvs)
  show ?case
  proof (cases "kvs = []")
    case True
    then show ?thesis by (simp add: ustr_def)
  next
    case False
    let ?member = "\<lambda>(k, v). encode_string k @ [58, 32] @ iterencode rt (Suc level) v"
    have "sum_list (map (\<lambda>(k, v). Suc (weight v)) kvs) \<le> sum_list (map (\<lambda>kv. Suc (length (?member kv))) kvs)"
    proof (rule sum_list_le)
      fix kv assume kv: "kv \<in> set kvs"
      obtain k v where eq: "kv = (k, v)" by (cases kv)
      have "decodable rt v"
        using JObj.prems kv eq by (auto simp add: list_all_iff)
      then have "weight v \<le> length (iterencode rt (Suc level) v)"
        using JObj.IH[of kv v "Suc level"] kv eq by simp
      then show "(case kv of (k, v) \<Rightarrow> Suc (weight v)) \<le> Suc (length (?member kv))"
        by (simp add: eq)
    qed
    also have "\<dots> = sum_list (map (\<lambda>y. Suc (length y)) (map ?member kvs))"
      by (simp add: comp_def)
    also have "\<dots> \<le> Suc (length (join (44 # newline_indent (Suc level)) (map ?member kvs)))"
      by (rule join_length) simp
    finally show ?thesis
      using False by simp
  qed
next
  case (JInt i)
  then show ?case
    using int_repr_head[of i] by auto
next
  case (JFloat w)
  then show ?case
    using iterencode_head[OF JFloat.prems, of level] by auto
qed (simp_all add: ustr_def encode_string_def)

lemma json_loads_dumps:
  assumes "decodable rt v" and "no_surrogate_pairs v"
  shows "json_loads rt (json_dumps_indent2 rt v) = Some v"
proof -
  have "skip_ws (iterencode rt 0 v) = iterencode rt 0 v"
    using skip_ws_iterencode[OF assms(1), of 0 "[]"] by simp
  moreover have "scan_once rt (length (iterencode rt 0 v)) (iterencode rt 0 v @ []) = Some (v, [])"
    using assms weight_le_length[OF assms(1)] by (intro scan_once_iterencode) simp_all
  ultimately show ?thesis
    by (simp add: json_loads_def json_dumps_indent2_def skip_ws_def)
qed

subsection \<open>The fetcher\<close>

text \<open>
  Claim C2 says that \<open>make_openmeteo_request\<close> never lets an exception reach
  its caller. \<open>except Exception\<close> does not catch \<open>asyncio.CancelledError\<close>,
  raised in the awaited GET when the task is cancelled, and the client is opened
  outside the \<open>try\<close>.
\<close>

theorem fetcher_propagates_counterexample:
  "make_openmeteo_request (sample_runtime (Inl CancelledError) None (Inl JSONDecodeError))
       OPENMETEO_API_BASE = Inl CancelledError
   \<and> make_openmeteo_request ((serving payload_two_days)\<lparr>client_open := Some ValueError\<rparr>)
       OPENMETEO_API_BASE = Inl ValueError"
  by (simp add: make_openmeteo_request_def request_body_def sample_runtime_def serving_def)

text \<open>
  Claim C2, amended. When the client opens and closes without raising, then for
  every URL: an exception that derives from \<open>Exception\<close>, raised by the GET
  (network error, timeout), by \<open>raise_for_status\<close> (HTTP error status) or by
  the decoding (malformed JSON body), makes \<open>make_openmeteo_request\<close> return
  \<open>None\<close>; when the three steps succeed it returns the decoded document; an
  exception that does not derive from \<open>Exception\<close> reaches the caller.
\<close>

theorem fetcher_catches_exceptions:
  assumes "client_open rt = None" and "client_close rt = None"
  shows "(\<forall>e. client_get rt url headers timeout_30 = Inl e \<and> is_Exception e
            \<longrightarrow> make_openmeteo_request rt url = Inr None)
   \<and> (\<forall>resp e. client_get rt url headers timeout_30 = Inr resp \<and> raise_for_status rt resp = Some e
            \<and> is_Exception e
          \<longrightarrow> make_openmeteo_request rt url = Inr None)
   \<and> (\<forall>resp e. client_get rt url headers timeout_30 = Inr resp \<and> raise_for_status rt resp = None
            \<and> response_json rt resp = Inl e \<and> is_Exception e
          \<longrightarrow> make_openmeteo_request rt url = Inr None)
   \<and> (\<forall>resp doc. client_get rt url headers timeout_30 = Inr resp \<and> raise_for_status rt resp = None
            \<and> response_json rt resp = Inr doc
          \<longrightarrow> make_openmeteo_request rt url = Inr (Some doc))
   \<and> (\<forall>e. request_body rt url = Inl e \<and> \<not> is_Exception e
          \<longrightarrow> make_openmeteo_request rt url = Inl e)
   \<and> is_Exception ConnectError \<and> is_Exception TimeoutException
   \<and> is_Exception HTTPStatusError \<and> is_Exception JSONDecodeError
   \<and> \<not> is_Exception CancelledError \<and> \<not> is_Exception KeyboardInterrupt"
proof -
  note fetch = fetch_cases[OF assms, of url]
  have "\<forall>e. client_get rt url headers timeout_30 = Inl e \<and> is_Exception e
      \<longrightarrow> make_openmeteo_request rt url = Inr None"
    by (simp add: fetch request_body_def)
  moreover have "\<forall>resp e. client_get rt url headers timeout_30 = Inr resp \<and> raise_for_status rt resp = Some e
        \<and> is_Exception e
      \<longrightarrow> make_openmeteo_request rt url = Inr None"
    by (simp add: fetch request_body_def)
  moreover have "\<forall>resp e. client_get rt url headers timeout_30 = Inr resp \<and> raise_for_status rt resp = None
        \<and> response_json rt resp = Inl e \<and> is_Exception e
      \<longrightarrow> make_openmeteo_request rt url = Inr None"
    by (simp add: fetch request_body_def)
  moreover have "\<forall>resp doc. client_get rt url headers timeout_30 = Inr resp \<and> raise_for_status rt resp = None
        \<and> response_json rt resp = Inr doc
      \<longrightarrow> make_openmeteo_request rt url = Inr (Some doc)"
    by (simp add: fetch request_body_def)
  moreover have "\<forall>e. request_body rt url = Inl e \<and> \<not> is_Exception e
      \<longrightarrow> make_openmeteo_request rt url = Inl e"
    by (simp add: fetch)
  ultimately show ?thesis by simp
qed

theorem fetcher_catches_exceptions_witness:
  "client_get (sample_runtime (Inl ConnectError) None (Inl JSONDecodeError)) OPENMETEO_API_BASE headers timeout_30
     = Inl ConnectError
   \<and> make_openmeteo_request (sample_runtime (Inl ConnectError) None (Inl JSONDecodeError)) OPENMETEO_API_BASE
     = Inr None
   \<and> client_get (sample_runtime (Inl TimeoutException) None (Inl JSONDecodeError)) OPENMETEO_API_BASE headers timeout_30
     = Inl TimeoutException
   \<and> make_openmeteo_request (sample_runtime (Inl TimeoutException) None (Inl JSONDecodeError)) OPENMETEO_API_BASE
     = Inr None
   \<and> raise_for_status (sample_runtime (Inr server_error_response) (Some HTTPStatusError) (Inr payload_two_days))
       server_error_response = Some HTTPStatusError
   \<and> make_openmeteo_request (sample_runtime (Inr server_error_response) (Some HTTPStatusError) (Inr payload_two_days))
       OPENMETEO_API_BASE = Inr None
   \<and> response_json (sample_runtime (Inr ok_response) None (Inl JSONDecodeError)) ok_response = Inl JSONDecodeError
   \<and> make_openmeteo_request (sample_runtime (Inr ok_response) None (Inl JSONDecodeError)) OPENMETEO_API_BASE
     = Inr None
   \<and> response_json (serving payload_two_days) ok_response = Inr payload_two_days
   \<and> make_openmeteo_request (serving payload_two_days) OPENMETEO_API_BASE = Inr (Some payload_two_days)
   \<and> request_body (sample_runtime (Inl CancelledError) None (Inl JSONDecodeError)) OPENMETEO_API_BASE
     = Inl CancelledError
   \<and> make_openmeteo_request (sample_runtime (Inl CancelledError) None (Inl JSONDecodeError)) OPENMETEO_API_BASE
     = Inl CancelledError"
proof -
  have opened: "client_open (sample_runtime got status decoded) = None"
    "client_close (sample_runtime got status decoded) = None" for got status decoded
    by simp_all
  note t = fetcher_catches_exceptions[OF opened]
  show ?thesis
    using t [of "Inl ConnectError" None "Inl JSONDecodeError" OPENMETEO_API_BASE]
      t [of "Inl TimeoutException" None "Inl JSONDecodeError" OPENMETEO_API_BASE]
      t [of "Inr server_error_response" "Some HTTPStatusError" "Inr payload_two_days" OPENMETEO_API_BASE]
      t [of "Inr ok_response" None "Inl JSONDecodeError" OPENMETEO_API_BASE]
      t [of "Inr ok_response" None "Inr payload_two_days" OPENMETEO_API_BASE]
      t [of "Inl CancelledError" None "Inl JSONDecodeError" OPENMETEO_API_BASE]
    by (simp add: sample_runtime_def serving_def request_body_def)
qed

subsection \<open>The fallback messages\<close>

text \<open>
  Claim C3. When the fetcher returns \<open>None\<close>, \<open>get_forecast\<close> returns exactly
  "Unable to fetch forecast data for this location." and \<open>get_current_weather\<close>
  returns exactly "Unable to fetch current weather data for this location.", and
  nothing else.
\<close>

theorem absence_gives_fallback:
  "(make_openmeteo_request rt (forecast_url rt latitude longitude) = Inr None
      \<longrightarrow> get_forecast rt latitude longitude
          = Inr (ustr ''Unable to fetch forecast data for this location.''))
   \<and> (make_openmeteo_request rt (current_weather_url rt latitude longitude) = Inr None
      \<longrightarrow> get_current_weather rt latitude longitude
          = Inr (ustr ''Unable to fetch current weather data for this location.''))"
  by (simp add: get_forecast_def get_current_weather_def)

theorem absence_gives_fallback_witness:
  "make_openmeteo_request (sample_runtime (Inl ConnectError) None (Inl JSONDecodeError))
       (forecast_url (sample_runtime (Inl ConnectError) None (Inl JSONDecodeError)) lat_52_52 lon_13_41) = Inr None
   \<and> get_forecast (sample_runtime (Inl ConnectError) None (Inl JSONDecodeError)) lat_52_52 lon_13_41
       = Inr (ustr ''Unable to fetch forecast data for this location.'')
   \<and> make_openmeteo_request (sample_runtime (Inl ConnectError) None (Inl JSONDecodeError))
       (current_weather_url (sample_runtime (Inl ConnectError) None (Inl JSONDecodeError)) lat_52_52 lon_13_41) = Inr None
   \<and> get_current_weather (sample_runtime (Inl ConnectError) None (Inl JSONDecodeError)) lat_52_52 lon_13_41
       = Inr (ustr ''Unable to fetch current weather data for this location.'')"
proof -
  have "make_openmeteo_request (sample_runtime (Inl ConnectError) None (Inl JSONDecodeError)) url = Inr None" for url
    by (simp add: fetch_cases request_body_def) (simp add: sample_runtime_def)
  then show ?thesis
    using absence_gives_fallback
      [of "sample_runtime (Inl ConnectError) None (Inl JSONDecodeError)" lat_52_52 lon_13_41]
    by simp
qed

text \<open>
  Claim C8. When the fetcher returns the empty object \<open>{}\<close>, which is a parsed
  document and not a failure, both tools still return their fallback message:
  \<open>not data\<close> holds of an empty \<open>dict\<close>.
\<close>

theorem empty_object_gives_fallback:
  "(make_openmeteo_request rt (forecast_url rt latitude longitude) = Inr (Some (JObj []))
      \<longrightarrow> get_forecast rt latitude longitude
          = Inr (ustr ''Unable to fetch forecast data for this location.''))
   \<and> (make_openmeteo_request rt (current_weather_url rt latitude longitude) = Inr (Some (JObj []))
      \<longrightarrow> get_current_weather rt latitude longitude
          = Inr (ustr ''Unable to fetch current weather data for this location.''))"
  by (simp add: get_forecast_def get_current_weather_def)

theorem empty_object_gives_fallback_witness:
  "make_openmeteo_request (serving (JObj [])) (forecast_url (serving (JObj [])) lat_52_52 lon_13_41)
       = Inr (Some (JObj []))
   \<and> get_forecast (serving (JObj [])) lat_52_52 lon_13_41
       = Inr (ustr ''Unable to fetch forecast data for this location.'')
   \<and> make_openmeteo_request (serving (JObj [])) (current_weather_url (serving (JObj [])) lat_52_52 lon_13_41)
       = Inr (Some (JObj []))
   \<and> get_current_weather (serving (JObj [])) lat_52_52 lon_13_41
       = Inr (ustr ''Unable to fetch current weather data for this location.'')"
  using empty_object_gives_fallback [of "serving (JObj [])" lat_52_52 lon_13_41]
  by simp

subsection \<open>The forecast text\<close>

lemma join_concat:
  "join sep xs = (if xs = [] then [] else hd xs @ concat (map (\<lambda>x. sep @ x) (tl xs)))"
  by (induction sep xs rule: join.induct) simp_all

text \<open>
  Claim C1. For a fetched payload whose \<open>daily\<close> object holds the five arrays
  \<open>time\<close>, \<open>temperature_2m_max\<close>, \<open>temperature_2m_min\<close>, \<open>precipitation_sum\<close>
  and \<open>weathercode\<close>, all of one length, the text returned by \<open>get_forecast\<close>
  is made of exactly \<open>len(daily.time)\<close> blocks with the line \<open>---\<close> between
  one block and the next, and block \<open>i\<close> is the five lines "Date: ...", "Max
  Temperature: ...\<degree>C", "Min Temperature: ...\<degree>C", "Precipitation: ... mm"
  and "Weather Code: ...", filled with the values at index \<open>i\<close>. As in the
  template of the source, a block opens with a line feed and each of its lines
  ends with one; 176 is the degree sign.
\<close>

theorem forecast_blocks:
  assumes "make_openmeteo_request rt (forecast_url rt latitude longitude) = Inr (Some (JObj kvs))"
    and "map_of kvs (ustr ''daily'') = Some (JObj dk)"
    and "map_of dk (ustr ''time'') = Some (JArr ts)"
    and "map_of dk (ustr ''temperature_2m_max'') = Some (JArr mx)"
    and "map_of dk (ustr ''temperature_2m_min'') = Some (JArr mn)"
    and "map_of dk (ustr ''precipitation_sum'') = Some (JArr pr)"
    and "map_of dk (ustr ''weathercode'') = Some (JArr wc)"
    and "length mx = length ts" and "length mn = length ts"
    and "length pr = length ts" and "length wc = length ts"
  shows "\<exists>blocks.
      length blocks = length ts
      \<and> (\<forall>i < length ts. blocks ! i =
            ustr ''\<newline>Date: '' @ py_str rt (ts ! i)
            @ ustr ''\<newline>Max Temperature: '' @ py_str rt (mx ! i) @ [176]
            @ ustr ''C\<newline>Min Temperature: '' @ py_str rt (mn ! i) @ [176]
            @ ustr ''C\<newline>Precipitation: '' @ py_str rt (pr ! i)
            @ ustr '' mm\<newline>Weather Code: '' @ py_str rt (wc ! i) @ ustr ''\<newline>'')
      \<and> get_forecast rt latitude longitude =
            Inr (if blocks = [] then []
                 else hd blocks @ concat (map (\<lambda>b. ustr ''\<newline>---\<newline>'' @ b) (tl blocks)))"
proof -
  let ?blocks = "map (\<lambda>i. forecast_text rt (ts ! i) (mx ! i) (mn ! i) (pr ! i) (wc ! i)) [0..<length ts]"
  have truthy: "py_bool (JObj kvs)"
    using assms(2) by auto
  have sep: "[LF] @ ustr ''---'' @ [LF] = ustr ''\<newline>---\<newline>''"
    by (simp add: LF_def ustr_def)
  have "format_forecast rt (JObj kvs) = Inr (join ([LF] @ ustr ''---'' @ [LF]) ?blocks)"
    using assms(2-11) by (intro format_forecast_arrays) simp_all
  then have "get_forecast rt latitude longitude = Inr (join (ustr ''\<newline>---\<newline>'') ?blocks)"
    using assms(1) truthy by (simp only: sep) (simp add: get_forecast_def)
  then have "get_forecast rt latitude longitude =
      Inr (if ?blocks = [] then []
           else hd ?blocks @ concat (map (\<lambda>b. ustr ''\<newline>---\<newline>'' @ b) (tl ?blocks)))"
    by (simp only: join_concat)
  moreover have "length ?blocks = length ts"
    by simp
  moreover have "\<forall>i < length ts. ?blocks ! i =
            ustr ''\<newline>Date: '' @ py_str rt (ts ! i)
            @ ustr ''\<newline>Max Temperature: '' @ py_str rt (mx ! i) @ [176]
            @ ustr ''C\<newline>Min Temperature: '' @ py_str rt (mn ! i) @ [176]
            @ ustr ''C\<newline>Precipitation: '' @ py_str rt (pr ! i)
            @ ustr '' mm\<newline>Weather Code: '' @ py_str rt (wc ! i) @ ustr ''\<newline>''"
    by (simp add: forecast_text_def LF_def DEGREE_def ustr_def)
  ultimately show ?thesis by blast
qed

theorem forecast_blocks_witness:
  "get_forecast (serving payload_two_days) lat_52_52 lon_13_41 =
     Inr (ustr ''\<newline>Date: 2024-05-01\<newline>Max Temperature: 21'' @ [176]
          @ ustr ''C\<newline>Min Temperature: 9'' @ [176]
          @ ustr ''C\<newline>Precipitation: 0 mm\<newline>Weather Code: 3\<newline>\<newline>---\<newline>\<newline>Date: 2024-05-02\<newline>Max Temperature: 18'' @ [176]
          @ ustr ''C\<newline>Min Temperature: -1'' @ [176]
          @ ustr ''C\<newline>Precipitation: None mm\<newline>Weather Code: 61\<newline>'')"
proof -
  let ?rt = "serving payload_two_days"
  let ?ts = "[JStr (ustr ''2024-05-01''), JStr (ustr ''2024-05-02'')]"
  let ?mx = "[JInt 21, JInt 18]"
  let ?mn = "[JInt 9, JInt (- 1)]"
  let ?pr = "[JInt 0, JNull]"
  let ?wc = "[JInt 3, JInt 61]"
  let ?dk = "[(ustr ''time'', JArr ?ts), (ustr ''temperature_2m_max'', JArr ?mx),
      (ustr ''temperature_2m_min'', JArr ?mn), (ustr ''precipitation_sum'', JArr ?pr),
      (ustr ''weathercode'', JArr ?wc)]"
  let ?kvs = "[(ustr ''latitude'', JFloat lat_52_52), (ustr ''daily'', JObj ?dk)]"
  have fetch: "make_openmeteo_request ?rt (forecast_url ?rt lat_52_52 lon_13_41) = Inr (Some (JObj ?kvs))"
    by (simp add: payload_two_days_def two_days_def)
  have daily: "map_of ?kvs (ustr ''daily'') = Some (JObj ?dk)"
    by (simp add: ustr_def)
  have fields: "map_of ?dk (ustr ''time'') = Some (JArr ?ts)"
    "map_of ?dk (ustr ''temperature_2m_max'') = Some (JArr ?mx)"
    "map_of ?dk (ustr ''temperature_2m_min'') = Some (JArr ?mn)"
    "map_of ?dk (ustr ''precipitation_sum'') = Some (JArr ?pr)"
    "map_of ?dk (ustr ''weathercode'') = Some (JArr ?wc)"
    by (simp_all add: ustr_def)
  have lens: "length ?mx = length ?ts" "length ?mn = length ?ts"
    "length ?pr = length ?ts" "length ?wc = length ?ts"
    by simp_all
  from forecast_blocks [OF fetch daily fields lens]
  obtain blocks where len: "length blocks = length ?ts"
    and each: "\<forall>i < length ?ts. blocks ! i =
            ustr ''\<newline>Date: '' @ py_str ?rt (?ts ! i)
            @ ustr ''\<newline>Max Temperature: '' @ py_str ?rt (?mx ! i) @ [176]
            @ ustr ''C\<newline>Min Temperature: '' @ py_str ?rt (?mn ! i) @ [176]
            @ ustr ''C\<newline>Precipitation: '' @ py_str ?rt (?pr ! i)
            @ ustr '' mm\<newline>Weather Code: '' @ py_str ?rt (?wc ! i) @ ustr ''\<newline>''"
    and out: "get_forecast ?rt lat_52_52 lon_13_41 =
            Inr (if blocks = [] then []
                 else hd blocks @ concat (map (\<lambda>b. ustr ''\<newline>---\<newline>'' @ b) (tl blocks)))"
    by blast
  from len have "length blocks = Suc (Suc 0)"
    by simp
  then obtain b0 b1 where blocks: "blocks = [b0, b1]"
    by (metis length_0_conv length_Suc_conv)
  have "b0 = ustr ''\<newline>Date: 2024-05-01\<newline>Max Temperature: 21'' @ [176]
          @ ustr ''C\<newline>Min Temperature: 9'' @ [176]
          @ ustr ''C\<newline>Precipitation: 0 mm\<newline>Weather Code: 3\<newline>''"
    using each [rule_format, of 0]
    by (simp add: blocks ustr_def int_repr_def nat_repr.simps)
  moreover have "b1 = ustr ''\<newline>Date: 2024-05-02\<newline>Max Temperature: 18'' @ [176]
          @ ustr ''C\<newline>Min Temperature: -1'' @ [176]
          @ ustr ''C\<newline>Precipitation: None mm\<newline>Weather Code: 61\<newline>''"
    using each [rule_format, of 1]
    by (simp add: blocks ustr_def int_repr_def nat_repr.simps)
  ultimately show ?thesis
    using out blocks by (simp add: ustr_def)
qed

text \<open>
  Claim C9. For a fetched payload whose \<open>daily.time\<close> has length 0,
  \<open>get_forecast\<close> returns the empty string, the join of no blocks: neither the
  fallback message nor an exception.
\<close>

theorem empty_time_gives_empty_string:
  assumes "make_openmeteo_request rt (forecast_url rt latitude longitude) = Inr (Some data)"
    and "getitem_str data (ustr ''daily'') = Inr daily"
    and "getitem_str daily (ustr ''time'') = Inr t"
    and "py_len t = Inr 0"
  shows "get_forecast rt latitude longitude = Inr []"
proof -
  have "py_bool data"
    using assms(2) by (rule getitem_str_truthy)
  then show ?thesis
    using assms by (simp add: get_forecast_def format_forecast_def)
qed

theorem empty_time_gives_empty_string_witness:
  "get_forecast (serving payload_no_days) lat_52_52 lon_13_41 = Inr []"
proof (rule empty_time_gives_empty_string)
  show "make_openmeteo_request (serving payload_no_days)
      (forecast_url (serving payload_no_days) lat_52_52 lon_13_41) = Inr (Some payload_no_days)"
    by simp
  show "getitem_str payload_no_days (ustr ''daily'') = Inr (JObj
     [(ustr ''time'', JArr []),
      (ustr ''temperature_2m_max'', JArr []),
      (ustr ''temperature_2m_min'', JArr []),
      (ustr ''precipitation_sum'', JArr []),
      (ustr ''weathercode'', JArr [])])"
    by (simp add: payload_no_days_def)
  show "getitem_str (JObj
     [(ustr ''time'', JArr []),
      (ustr ''temperature_2m_max'', JArr []),
      (ustr ''temperature_2m_min'', JArr []),
      (ustr ''precipitation_sum'', JArr []),
      (ustr ''weathercode'', JArr [])]) (ustr ''time'') = Inr (JArr [])"
    by simp
  show "py_len (JArr []) = Inr 0"
    by simp
qed

text \<open>
  Claim C10. The forecast text depends on the payload through its \<open>daily\<close>
  field only: two fetched, non-empty payloads with the same \<open>daily\<close> give the
  same result of \<open>get_forecast\<close>, whatever else they hold (\<open>hourly\<close> data, for
  instance) and whatever the coordinates asked for, under one and the same
  Python formatting of values.
\<close>

theorem forecast_depends_on_daily_only:
  assumes "make_openmeteo_request rt1 (forecast_url rt1 lat1 lon1) = Inr (Some d1)"
    and "make_openmeteo_request rt2 (forecast_url rt2 lat2 lon2) = Inr (Some d2)"
    and "py_bool d1" and "py_bool d2"
    and "float_repr rt1 = float_repr rt2" and "str_repr rt1 = str_repr rt2"
    and "getitem_str d1 (ustr ''daily'') = getitem_str d2 (ustr ''daily'')"
  shows "get_forecast rt1 lat1 lon1 = get_forecast rt2 lat2 lon2"
proof -
  have "get_forecast rt1 lat1 lon1 = format_forecast rt1 d1"
    using assms(1,3) by (simp add: get_forecast_def)
  also have "\<dots> = format_forecast rt2 d1"
    using assms(5,6) by (rule format_forecast_cong)
  also have "\<dots> = format_forecast rt2 d2"
    using assms(7) by (rule format_forecast_daily_only)
  also have "\<dots> = get_forecast rt2 lat2 lon2"
    using assms(2,4) by (simp add: get_forecast_def)
  finally show ?thesis .
qed

theorem forecast_depends_on_daily_only_witness:
  "get_forecast (serving payload_two_days) lat_52_52 lon_13_41
     = get_forecast (serving payload_two_days_hourly) lon_13_41 lat_52_52
   \<and> payload_two_days \<noteq> payload_two_days_hourly"
proof
  show "get_forecast (serving payload_two_days) lat_52_52 lon_13_41
     = get_forecast (serving payload_two_days_hourly) lon_13_41 lat_52_52"
  proof (rule forecast_depends_on_daily_only)
    show "make_openmeteo_request (serving payload_two_days)
        (forecast_url (serving payload_two_days) lat_52_52 lon_13_41) = Inr (Some payload_two_days)"
      by simp
    show "make_openmeteo_request (serving payload_two_days_hourly)
        (forecast_url (serving payload_two_days_hourly) lon_13_41 lat_52_52) = Inr (Some payload_two_days_hourly)"
      by simp
    show "py_bool payload_two_days"
      by (simp add: payload_two_days_def)
    show "py_bool payload_two_days_hourly"
      by (simp add: payload_two_days_hourly_def)
    show "float_repr (serving payload_two_days) = float_repr (serving payload_two_days_hourly)"
      by (simp add: serving_def sample_runtime_def)
    show "str_repr (serving payload_two_days) = str_repr (serving payload_two_days_hourly)"
      by (simp add: serving_def sample_runtime_def)
    show "getitem_str payload_two_days (ustr ''daily'') = getitem_str payload_two_days_hourly (ustr ''daily'')"
      by (simp add: payload_two_days_def payload_two_days_hourly_def ustr_def)
  qed
  show "payload_two_days \<noteq> payload_two_days_hourly"
    by (simp add: payload_two_days_def payload_two_days_hourly_def)
qed

subsection \<open>Which failures reach the caller\<close>




subsection \<open>The current-weather text\<close>

text \<open>
  On a fetched, truthy payload \<open>get_current_weather\<close> returns
  \<open>json.dumps(data, indent=2)\<close> of the whole payload, not of its \<open>current\<close>
  field.
\<close>

lemma current_weather_dumps_whole_payload:
  assumes "make_openmeteo_request rt (current_weather_url rt latitude longitude) = Inr (Some data)"
    and "py_bool data"
  shows "get_current_weather rt latitude longitude = Inr (json_dumps_indent2 rt data)"
  using assms by (simp add: get_current_weather_def)

lemma sample_floats:
  "\<not> is_nan lat_52_52" "lat_52_52 \<noteq> pos_inf" "lat_52_52 \<noteq> neg_inf"
  "\<not> is_nan lon_13_41" "lon_13_41 \<noteq> pos_inf" "lon_13_41 \<noteq> neg_inf"
  "lon_13_41 \<noteq> lat_52_52"
  by (simp_all add: is_nan_def lat_52_52_def lon_13_41_def pos_inf_def neg_inf_def)

lemma newline_indent_levels:
  "newline_indent 0 = [10]"
  "newline_indent (Suc 0) = [10, 32, 32]"
  "newline_indent (Suc (Suc 0)) = [10, 32, 32, 32, 32]"
  "newline_indent (Suc (Suc (Suc 0))) = [10, 32, 32, 32, 32, 32, 32]"
  by (simp_all add: newline_indent_def numeral_eq_Suc)

lemma dumps_payload_current:
  \<open>json_dumps_indent2 (serving doc) payload_current = ustr ''{\<newline>  "latitude": 52.52,\<newline>  "current": {\<newline>    "is_day": 1,\<newline>    "temperature_2m": 13.41,\<newline>    "codes": [\<newline>      -3,\<newline>      null,\<newline>      true,\<newline>      []\<newline>    ]\<newline>  }\<newline>}''\<close>
  by (simp add: json_dumps_indent2_def payload_current_def serving_def sample_runtime_def
      sample_float_repr_def float_text_def sample_floats encode_string_def escape_char_def
      newline_indent_levels int_repr_def nat_repr.simps ustr_def)

lemma dumps_payload_surrogates:
  \<open>json_dumps_indent2 rt payload_surrogates = (ustr ''{\<newline>  "current": {\<newline>    "note": "'' @ [92] @ ustr ''ud83d'' @ [92] @ ustr ''ude00"\<newline>  }\<newline>}'')\<close>
  by (simp add: json_dumps_indent2_def payload_surrogates_def encode_string_def escape_char_def
      u_escape_def hex_digit_def newline_indent_levels ustr_def)

lemma dumps_payload_joined:
  \<open>json_dumps_indent2 rt payload_joined = (ustr ''{\<newline>  "current": {\<newline>    "note": "'' @ [92] @ ustr ''ud83d'' @ [92] @ ustr ''ude00"\<newline>  }\<newline>}'')\<close>
  by (simp add: json_dumps_indent2_def payload_joined_def encode_string_def escape_char_def
      u_escape_def hex_digit_def newline_indent_levels ustr_def)




subsection \<open>The URLs\<close>

text \<open>
  Claim C6. For latitude 52.52 and longitude 13.41, which Python prints as
  \<open>52.52\<close> and \<open>13.41\<close>, the URL that \<open>get_forecast\<close> builds and hands to the
  fetcher is exactly the one below.
\<close>

theorem forecast_url_berlin:
  assumes "float_repr rt lat_52_52 = ustr ''52.52''"
    and "float_repr rt lon_13_41 = ustr ''13.41''"
  shows "forecast_url rt lat_52_52 lon_13_41 = ustr ''https://api.open-meteo.com/v1/forecast?latitude=52.52&longitude=13.41&hourly=temperature_2m,precipitation,weathercode&daily=temperature_2m_max,temperature_2m_min,precipitation_sum,weathercode&timezone=auto''"
  by (simp add: forecast_url_def OPENMETEO_API_BASE_def assms) (simp add: ustr_def)

theorem forecast_url_berlin_witness:
  "forecast_url (serving payload_two_days) lat_52_52 lon_13_41 = ustr ''https://api.open-meteo.com/v1/forecast?latitude=52.52&longitude=13.41&hourly=temperature_2m,precipitation,weathercode&daily=temperature_2m_max,temperature_2m_min,precipitation_sum,weathercode&timezone=auto''"
proof (rule forecast_url_berlin)
  show "float_repr (serving payload_two_days) lat_52_52 = ustr ''52.52''"
    by (simp add: serving_def sample_runtime_def sample_float_repr_def)
  show "float_repr (serving payload_two_days) lon_13_41 = ustr ''13.41''"
    by (simp add: serving_def sample_runtime_def sample_float_repr_def lat_52_52_def lon_13_41_def)
qed

text \<open>
  Claim C7 counts fourteen variables in the \<open>current\<close> parameter of the URL of
  \<open>get_current_weather\<close>. Read back from the URL, the parameter holds fifteen.
\<close>

theorem current_weather_url_variables_counterexample:
  "map_option (\<lambda>v. length (split_on 44 v))
     (query_value (current_weather_url (serving payload_no_daily) lat_52_52 lon_13_41) (ustr ''current''))
   = Some 15"
  by (simp add: query_value_def query_pairs_def current_weather_url_def serving_def sample_runtime_def sample_float_repr_def
     OPENMETEO_API_BASE_def ustr_def lat_52_52_def lon_13_41_def)

text \<open>
  Claim C7, amended. For every latitude and longitude, the URL of
  \<open>get_current_weather\<close> is the fixed text with the two coordinates put in, and
  its \<open>current\<close> parameter is the comma-separated list of exactly fifteen
  variables, all different.
\<close>

theorem current_weather_url_variables:
  "current_weather_url rt latitude longitude
     = OPENMETEO_API_BASE @ ustr ''/forecast?latitude='' @ float_repr rt latitude
       @ ustr ''&longitude='' @ float_repr rt longitude
       @ ustr ''&current='' @ join (ustr '','') (map ustr current_variables)
   \<and> split_on 44 (join (ustr '','') (map ustr current_variables)) = map ustr current_variables
   \<and> distinct current_variables
   \<and> length current_variables = 15"
proof -
  have 1: "join (ustr '','') (map ustr current_variables) = ustr ''temperature_2m,is_day,showers,cloud_cover,wind_speed_10m,wind_direction_10m,pressure_msl,snowfall,precipitation,relative_humidity_2m,apparent_temperature,rain,weather_code,surface_pressure,wind_gusts_10m''"
    by (simp add: current_variables_def ustr_def)
  have 2: "split_on 44 (ustr ''temperature_2m,is_day,showers,cloud_cover,wind_speed_10m,wind_direction_10m,pressure_msl,snowfall,precipitation,relative_humidity_2m,apparent_temperature,rain,weather_code,surface_pressure,wind_gusts_10m'') = map ustr current_variables"
    by (simp add: current_variables_def ustr_def)
  have 3: "distinct current_variables" "length current_variables = 15"
    by (simp_all add: current_variables_def)
  have 4: "current_weather_url rt latitude longitude
     = OPENMETEO_API_BASE @ ustr ''/forecast?latitude='' @ float_repr rt latitude
       @ ustr ''&longitude='' @ float_repr rt longitude
       @ ustr ''&current='' @ ustr ''temperature_2m,is_day,showers,cloud_cover,wind_speed_10m,wind_direction_10m,pressure_msl,snowfall,precipitation,relative_humidity_2m,apparent_temperature,rain,weather_code,surface_pressure,wind_gusts_10m''"
    by (simp add: current_weather_url_def ustr_def)
  show ?thesis
    using 2 3 4 by (simp only: 1 simp_thms)
qed

end
